theory Spec2Isabelle
  imports Complex_Main "HOL-Library.Sublist"
begin

chapter \<open>The model\<close>

section \<open>Strings\<close>

text \<open>
  Python strings are modelled as \<open>string\<close>. \<open>str.lower()\<close> and \<open>str.upper()\<close> are
  modelled on the ASCII letters (the messages and symbols the program compares against are
  ASCII); every other character is left as it is. The test \<open>sub in msg\<close> on strings is the
  contiguous-sublist relation \<^const>\<open>sublist\<close>.
\<close>

definition lower_char :: "char \<Rightarrow> char" where
  "lower_char c =
     (let n = (of_char c :: nat) in if 65 \<le> n \<and> n \<le> 90 then char_of (n + 32) else c)"

definition lower :: "string \<Rightarrow> string" where
  "lower s = map lower_char s"

definition upper_char :: "char \<Rightarrow> char" where
  "upper_char c =
     (let n = (of_char c :: nat) in if 97 \<le> n \<and> n \<le> 122 then char_of (n - 32) else c)"

definition upper :: "string \<Rightarrow> string" where
  "upper s = map upper_char s"

section \<open>The node's log query and the trace of a fetch\<close>

text \<open>
  A call of the node's \<open>get_logs\<close> either returns a list of entries or raises an exception,
  of which the program only reads the message \<open>str(e)\<close>. The node is an oracle that may
  answer differently each time it is asked: a query takes the number of calls made so far in
  this fetch, then the bounds \<open>from_block\<close> and \<open>to_block\<close> of the window.
\<close>

datatype 'l response = Logs "'l list" | Raises string

type_synonym 'l query = "nat \<Rightarrow> int \<Rightarrow> int \<Rightarrow> 'l response"

text \<open>
  The fetchers are generators. A run is that of a generator read to its end; it is described
  by what it yields, in order, and by a trace of what it did: each window \<open>(start, end)\<close> it
  queried, each value it assigned to \<open>step\<close>, and each value it passed to \<open>progress_cb\<close>
  (which is taken not to raise). The progress fractions are Python floats; they are modelled
  as exact rationals, with which they agree where the quotient is 1.
\<close>

record 'l run =
  yielded :: "'l list"
  queried :: "(int \<times> int) list"
  step_values :: "int list"
  progress :: "rat list"

definition empty_run :: "'l run" where
  "empty_run = \<lparr>yielded = [], queried = [], step_values = [], progress = []\<rparr>"

section \<open>analysis\_curve\_pool.py: the fetchers\<close>

text \<open>The test of lines 127 and 182 on the message of the exception.\<close>

definition is_range_limit_error :: "string \<Rightarrow> bool" where
  "is_range_limit_error e =
     (let msg = lower e in
      sublist ''range limit'' msg \<or> sublist ''limit exceeded'' msg \<or> sublist ''block range'' msg)"

text \<open>
  \<open>fetch_event_logs\<close> (lines 116 to 140). The loop may run forever (with \<open>step = 0\<close> and a
  node that never fails it does), so it is a partial function: \<open>None\<close> is a call that
  never returns. A returned value is the exception that left the generator, if any, and the
  run up to that point.
\<close>

partial_function (option) fetch_event_logs_loop ::
  "'l query \<Rightarrow> int \<Rightarrow> int \<Rightarrow> int \<Rightarrow> 'l run \<Rightarrow> (string option \<times> 'l run) option" where
  "fetch_event_logs_loop q to_block start step r =
    (if start \<le> to_block then
       (let end_b = min (start + step - 1) to_block;
            r' = r\<lparr>queried := queried r @ [(start, end_b)]\<rparr> in
        case q (length (queried r)) start end_b of
          Logs ls \<Rightarrow>
            fetch_event_logs_loop q to_block (end_b + 1) step (r'\<lparr>yielded := yielded r' @ ls\<rparr>)
        | Raises e \<Rightarrow>
            if is_range_limit_error e then
              if step > 200 then
                fetch_event_logs_loop q to_block start (step div 2)
                  (r'\<lparr>step_values := step_values r' @ [step div 2]\<rparr>)
              else if step > 50 then
                fetch_event_logs_loop q to_block start 50
                  (r'\<lparr>step_values := step_values r' @ [50]\<rparr>)
              else if step > 10 then
                fetch_event_logs_loop q to_block start 10
                  (r'\<lparr>step_values := step_values r' @ [10]\<rparr>)
              else if step > 1 then
                fetch_event_logs_loop q to_block start 1
                  (r'\<lparr>step_values := step_values r' @ [1]\<rparr>)
              else fetch_event_logs_loop q to_block (end_b + 1) step r'
            else Some (Some e, r'))
     else Some (None, r))"

declare fetch_event_logs_loop.simps [code]

definition fetch_event_logs ::
  "'l query \<Rightarrow> int \<Rightarrow> int \<Rightarrow> int \<Rightarrow> (string option \<times> 'l run) option" where
  "fetch_event_logs event from_block to_block step =
     fetch_event_logs_loop event to_block from_block step empty_run"

text \<open>
  \<open>fetch_raw_logs\<close> (lines 165 to 185) asks \<open>w3.eth.get_logs\<close> with a filter made of the
  window, the address and the topic.
\<close>

record log_filter =
  fromBlock :: int
  toBlock :: int
  address :: string
  topics :: "string list"

type_synonym 'l get_logs = "nat \<Rightarrow> log_filter \<Rightarrow> 'l response"

definition raw_query :: "'l get_logs \<Rightarrow> string \<Rightarrow> string \<Rightarrow> 'l query" where
  "raw_query get_logs addr topic0 =
     (\<lambda>n a b. get_logs n \<lparr>fromBlock = a, toBlock = b, address = addr, topics = [topic0]\<rparr>)"

partial_function (option) fetch_raw_logs_loop ::
  "'l query \<Rightarrow> int \<Rightarrow> int \<Rightarrow> int \<Rightarrow> 'l run \<Rightarrow> (string option \<times> 'l run) option" where
  "fetch_raw_logs_loop q to_block start step r =
    (if start \<le> to_block then
       (let end_b = min (start + step - 1) to_block;
            r' = r\<lparr>queried := queried r @ [(start, end_b)]\<rparr> in
        case q (length (queried r)) start end_b of
          Logs ls \<Rightarrow>
            fetch_raw_logs_loop q to_block (end_b + 1) step (r'\<lparr>yielded := yielded r' @ ls\<rparr>)
        | Raises e \<Rightarrow>
            if is_range_limit_error e then
              fetch_raw_logs_loop q to_block start (max 1 (step div 2))
                (r'\<lparr>step_values := step_values r' @ [max 1 (step div 2)]\<rparr>)
            else Some (Some e, r'))
     else Some (None, r))"

declare fetch_raw_logs_loop.simps [code]

definition fetch_raw_logs ::
  "'l get_logs \<Rightarrow> string \<Rightarrow> string \<Rightarrow> int \<Rightarrow> int \<Rightarrow> int \<Rightarrow> (string option \<times> 'l run) option" where
  "fetch_raw_logs get_logs addr topic0 from_block to_block step =
     fetch_raw_logs_loop (raw_query get_logs addr topic0) to_block from_block step empty_run"

section \<open>curve\_analyzer.py: the adaptive fetchers\<close>

text \<open>The test of lines 228 and 271 on the message of the exception.\<close>

definition is_range_or_limit_error :: "string \<Rightarrow> bool" where
  "is_range_or_limit_error e = (let msg = lower e in sublist ''range'' msg \<or> sublist ''limit'' msg)"

text \<open>
  The inner \<open>while True\<close> loop of \<open>fetch_event_logs_adaptive\<close> (lines 214 to 244) and of
  \<open>fetch_token_exchange_raw\<close> (lines 257 to 284): the two bodies are the same line by line
  but for the query they send. It returns the values of \<open>start\<close>, \<open>step\<close> and \<open>pages\<close> at
  its \<open>break\<close>. \<open>time.sleep\<close> has no effect on the values and is left out.
\<close>

function attempt_window ::
  "'l query \<Rightarrow> int \<Rightarrow> int \<Rightarrow> int \<Rightarrow> int \<Rightarrow> int \<Rightarrow> int \<Rightarrow> nat \<Rightarrow> nat \<Rightarrow> 'l run
     \<Rightarrow> int \<times> int \<times> nat \<times> 'l run" where
  "attempt_window q from_block total_blocks to_block start end_b step retries pages r =
     (let r' = r\<lparr>queried := queried r @ [(start, end_b)]\<rparr> in
      case q (length (queried r)) start end_b of
        Logs ls \<Rightarrow>
          (end_b + 1, step, pages + 1,
           r'\<lparr>yielded := yielded r' @ ls,
              progress := progress r' @ [min 1 (of_int (end_b - from_block + 1) / of_int total_blocks)]\<rparr>)
      | Raises e \<Rightarrow>
          if is_range_or_limit_error e then
            if retries + 1 \<ge> 5 then (end_b + 1, step, pages, r')
            else
              attempt_window q from_block total_blocks to_block start
                (min (start + max 1 (step div 2) - 1) to_block) (max 1 (step div 2))
                (retries + 1) pages (r'\<lparr>step_values := step_values r' @ [max 1 (step div 2)]\<rparr>)
          else
            if retries + 1 \<ge> 2 then (end_b + 1, step, pages, r')
            else attempt_window q from_block total_blocks to_block start end_b step (retries + 1) pages r')"
  by pat_completeness auto
termination
  by (relation "measure (\<lambda>(q, from_block, total_blocks, to_block, start, end_b, step, retries, pages, r).
        5 - retries)") auto

declare attempt_window.simps [simp del]

text \<open>The outer loop (lines 211 to 246 and 254 to 286).\<close>

partial_function (option) adaptive_loop ::
  "'l query \<Rightarrow> int \<Rightarrow> int \<Rightarrow> int \<Rightarrow> int \<Rightarrow> int \<Rightarrow> int \<Rightarrow> nat \<Rightarrow> 'l run \<Rightarrow> 'l run option" where
  "adaptive_loop q from_block total_blocks to_block max_pages start step pages r =
    (if start \<le> to_block then
       (case attempt_window q from_block total_blocks to_block start
               (min (start + step - 1) to_block) step 0 pages r of
          (start', step', pages', r') \<Rightarrow>
            if int pages' \<ge> max_pages then Some r'
            else adaptive_loop q from_block total_blocks to_block max_pages start' step' pages' r')
     else Some r)"

declare adaptive_loop.simps [code]

definition fetch_event_logs_adaptive ::
  "'l query \<Rightarrow> int \<Rightarrow> int \<Rightarrow> int \<Rightarrow> int \<Rightarrow> 'l run option" where
  "fetch_event_logs_adaptive event from_block to_block step max_pages =
     adaptive_loop event from_block (max 1 (to_block - from_block + 1)) to_block max_pages
       from_block step 0 empty_run"

text \<open>
  \<open>TOPIC_TOKEN_EX\<close> (lines 14 and 15) is the hex digest of the Keccak hash of the event
  signature behind \<open>0x\<close>. The hash is a function of \<open>eth_utils\<close>; it is a parameter here.
\<close>

definition TOKEN_EX_SIG :: string where
  "TOKEN_EX_SIG = ''TokenExchange(address,int128,uint256,int128,uint256)''"

definition TOPIC_TOKEN_EX :: "(string \<Rightarrow> string) \<Rightarrow> string" where
  "TOPIC_TOKEN_EX keccak_hex = ''0x'' @ keccak_hex TOKEN_EX_SIG"

definition fetch_token_exchange_raw ::
  "(string \<Rightarrow> string) \<Rightarrow> 'l get_logs \<Rightarrow> string \<Rightarrow> int \<Rightarrow> int \<Rightarrow> int \<Rightarrow> int \<Rightarrow> 'l run option" where
  "fetch_token_exchange_raw keccak_hex get_logs addr from_block to_block step max_pages =
     adaptive_loop (raw_query get_logs addr (TOPIC_TOKEN_EX keccak_hex))
       from_block (max 1 (to_block - from_block + 1)) to_block max_pages from_block step 0 empty_run"

section \<open>The block at a timestamp\<close>

text \<open>
  The loop of \<open>block_at_timestamp\<close>, the same in both files (curve\_analyzer.py lines 198 to
  204, analysis\_curve\_pool.py lines 64 to 71). \<open>get_ts b\<close> is
  \<open>w3.eth.get_block(b).timestamp\<close>, taken as a function of the block number.
\<close>

function block_at_timestamp_loop :: "(int \<Rightarrow> int) \<Rightarrow> int \<Rightarrow> int \<Rightarrow> int \<Rightarrow> int" where
  "block_at_timestamp_loop get_ts ts lo hi =
     (if lo < hi then
        (let mid = (lo + hi) div 2 in
         if get_ts mid < ts then block_at_timestamp_loop get_ts ts (mid + 1) hi
         else block_at_timestamp_loop get_ts ts lo mid)
      else lo)"
  by pat_completeness auto
termination
  by (relation "measure (\<lambda>(get_ts, ts, lo, hi). nat (hi - lo))") auto

declare block_at_timestamp_loop.simps [simp del]

text \<open>
  curve\_analyzer.py: \<open>block_at_timestamp(w3, ts, start_hint = 17_000_000)\<close>; the node is
  given by its head \<open>block_number\<close> and its timestamps.
\<close>

definition block_at_timestamp :: "int \<Rightarrow> (int \<Rightarrow> int) \<Rightarrow> int \<Rightarrow> int \<Rightarrow> int" where
  "block_at_timestamp block_number get_ts ts start_hint =
     block_at_timestamp_loop get_ts ts start_hint block_number"

text \<open>
  analysis\_curve\_pool.py: \<open>block_at_timestamp(ts, start = 17_000_000, end = None)\<close>, where
  the head of the chain stands for a missing \<open>end\<close>.
\<close>

definition acp_block_at_timestamp :: "int \<Rightarrow> (int \<Rightarrow> int) \<Rightarrow> int \<Rightarrow> int \<Rightarrow> int option \<Rightarrow> int" where
  "acp_block_at_timestamp block_number get_ts ts start end_opt =
     (let end_b = (case end_opt of None \<Rightarrow> block_number | Some e \<Rightarrow> e) in
      block_at_timestamp_loop get_ts ts start end_b)"

section \<open>Notions used to state the properties\<close>

text \<open>
  The partition of \<open>[start, to_block]\<close> into consecutive windows of \<open>step\<close> blocks, the
  last one cut at \<open>to_block\<close>.
\<close>

function sub_windows :: "int \<Rightarrow> int \<Rightarrow> int \<Rightarrow> (int \<times> int) list" where
  "sub_windows start to_block step =
     (if start \<le> to_block \<and> 1 \<le> step
      then (start, min (start + step - 1) to_block)
             # sub_windows (min (start + step - 1) to_block + 1) to_block step
      else [])"
  by pat_completeness auto
termination
  by (relation "measure (\<lambda>(start, to_block, step). nat (to_block - start + 1))") auto

declare sub_windows.simps [simp del]

text \<open>
  The values assigned to \<open>step\<close>, after a first value \<open>step\<close>, never grow and stay at least 1.
\<close>

definition steps_ok :: "int \<Rightarrow> int list \<Rightarrow> bool" where
  "steps_ok step vs \<longleftrightarrow> sorted_wrt (\<ge>) (step # vs) \<and> (\<forall>v\<in>set vs. 1 \<le> v)"

text \<open>Nodes to run the fetchers on.\<close>

definition always_block_range :: "int get_logs" where
  "always_block_range n f = Raises ''query exceeds max block range''"

definition narrow_node :: "int query" where
  "narrow_node n a b = (if b - a + 1 > 37 then Raises ''Block Range too wide'' else Logs [a..b])"

definition block_numbers :: "int query" where
  "block_numbers n a b = Logs [a..b]"

definition block_numbers_raw :: "int get_logs" where
  "block_numbers_raw n f = Logs [fromBlock f..toBlock f]"


section \<open>Exceptions, the libraries and the node\<close>

text \<open>
  The exceptions the modelled code can meet. \<open>NodeError\<close> stands for whatever a call of the
  node or of a library raises; the program never looks inside it.
\<close>

datatype py_error = KeyError | TypeError | ValueError string | DecodeError | NodeError

text \<open>\<open>d[k]\<close> on a dictionary with integer keys.\<close>

definition getitem :: "(int \<rightharpoonup> 'v) \<Rightarrow> int \<Rightarrow> py_error + 'v" where
  "getitem d k = (case d k of None \<Rightarrow> Inl KeyError | Some v \<Rightarrow> Inr v)"

text \<open>
  Functions of \<open>eth_utils\<close>, \<open>eth_abi\<close>, \<open>web3\<close> and the standard library, which are not
  part of the repository, are parameters; \<open>None\<close> is a call that raises. Byte strings are
  \<open>string\<close>s, one character a byte. \<open>abi_decode\<close> takes the type names and the payload and
  gives the decoded values.
\<close>

datatype abi_value = AbiAddress string | AbiInt int

record lib =
  keccak_text_hex :: "string \<Rightarrow> string"
  abi_decode :: "string list \<Rightarrow> string \<Rightarrow> abi_value list option"
  bytes_fromhex :: "string \<Rightarrow> string option"
  urlparse_path :: "string \<Rightarrow> string option"
  to_checksum_address :: "string \<Rightarrow> string option"
  to_int_hexstr :: "string \<Rightarrow> int option"
  to_int_bytes :: "string \<Rightarrow> int option"
  to_hex :: "string \<Rightarrow> string option"

text \<open>
  A decoded \<open>TokenExchange\<close> event as \<open>event.get_logs\<close> gives it (\<open>ev['args']\<close>,
  \<open>ev['blockNumber']\<close>, \<open>ev['transactionHash'].hex()\<close>), and a raw log entry as
  \<open>w3.eth.get_logs\<close> and a receipt give it. Hashes and topics are kept as the strings their
  \<open>.hex()\<close> gives.
\<close>

record exchange_args =
  a_buyer :: string
  a_sold_id :: int
  a_tokens_sold :: int
  a_bought_id :: int
  a_tokens_bought :: int

record event_log =
  ev_args :: exchange_args
  ev_blockNumber :: int
  ev_transactionHash :: string

text \<open>
  The \<open>data\<close> of a raw entry, by the cases lines 361 to 374 tell apart: bytes, an object
  with a \<open>hex\<close> method that is not a string, a string, and a missing key (\<open>lg.get\<close> gives
  \<open>None\<close>, on which \<open>bytes\<close> raises).
\<close>

datatype raw_data = DataBytes string | DataHexLike string | DataStr string | DataNone

record raw_log =
  lg_address :: string
  lg_blockNumber :: int
  lg_topics :: "string list"
  lg_data :: raw_data
  lg_transactionHash :: string

record receipt =
  rc_logs :: "raw_log list"
  rc_to :: "string option"

text \<open>
  What a contract call may return for an address (lines 132 to 142 tell the three apart).
\<close>

datatype returned = RetBytes string | RetHexLike string | RetStr string

text \<open>
  The node, as far as the program uses it. A contract call that reverts or fails is \<open>None\<close>.
  Timestamps are a function of the block number (the memo of \<open>get_block_ts\<close> then changes
  nothing and is left out).
\<close>

record w3 =
  eth_block_number :: int
  eth_get_block_timestamp :: "int \<Rightarrow> int"
  events_TokenExchange_get_logs :: "string \<Rightarrow> event_log query"
  eth_get_logs :: "raw_log get_logs"
  eth_get_transaction_receipt :: "string \<Rightarrow> receipt option"
  call_coins :: "string \<Rightarrow> int \<Rightarrow> string option"
  call_symbol :: "string \<Rightarrow> string option"
  call_decimals :: "string \<Rightarrow> int option"
  call_minter :: "string \<Rightarrow> string option"
  call_get_registry :: "string \<Rightarrow> string option"
  call_get_pool_from_lp_token :: "string \<Rightarrow> string \<Rightarrow> returned option"

section \<open>Swap records\<close>

text \<open>The dataclass \<open>PoolMeta\<close> (curve\_analyzer.py lines 81 to 91).\<close>

record pool_meta =
  pm_address :: string
  coin0 :: string
  coin1 :: string
  sym0 :: string
  sym1 :: string
  dec0 :: int
  dec1 :: int
  deusd_index :: int
  frx_index :: int

text \<open>
  The dictionaries appended to \<open>swaps\<close>: seven keys in analysis\_curve\_pool.py, and three
  more in curve\_analyzer.py. Times are kept as timestamps. Amounts and prices are Python
  floats; they are modelled as exact rationals, and \<open>math.nan\<close> as \<open>None\<close>.
\<close>

record swap_row =
  time :: int
  block :: int
  txhash :: string
  direction :: string
  deusd_flow :: rat
  frx_flow :: rat
  price_deusd_in_frx :: "rat option"

record swap = swap_row +
  token0_flow :: rat
  token1_flow :: rat
  price_token0_in_token1 :: "rat option"

text \<open>\<open>amount / (10 ** decimals)\<close>.\<close>

definition normalise :: "int \<Rightarrow> int \<Rightarrow> rat" where
  "normalise amount decimals = of_int amount / power_int 10 decimals"

text \<open>
  analysis\_curve\_pool.py, \<open>handle_swap\<close> (lines 194 to 227). The globals \<open>decs\<close>,
  \<open>deusd_index\<close> and \<open>frx_index\<close> are read from a \<open>pool_meta\<close>; the global list \<open>swaps\<close> is
  passed and returned.
\<close>

definition handle_swap ::
  "pool_meta \<Rightarrow> (int \<Rightarrow> int) \<Rightarrow> event_log \<Rightarrow> swap_row list \<Rightarrow> py_error + swap_row list" where
  "handle_swap meta get_ts evlog swaps =
     (let args = ev_args evlog;
          sold_id = a_sold_id args;
          bought_id = a_bought_id args;
          sold = a_tokens_sold args;
          bought = a_tokens_bought args;
          blk = ev_blockNumber evlog;
          ts = get_ts blk;
          decs = [0 \<mapsto> dec0 meta, 1 \<mapsto> dec1 meta] in
      case getitem decs sold_id of Inl e \<Rightarrow> Inl e | Inr ds \<Rightarrow>
      case getitem decs bought_id of Inl e \<Rightarrow> Inl e | Inr db \<Rightarrow>
      (let sold_norm = normalise sold ds;
           bought_norm = normalise bought db in
       if sold_id = deusd_index meta \<and> bought_id = frx_index meta then
         Inr (swaps @ [\<lparr>time = ts, block = blk, txhash = ev_transactionHash evlog,
                direction = ''deUSD->frxUSD'',
                deusd_flow = - sold_norm, frx_flow = bought_norm,
                price_deusd_in_frx = (if sold_norm > 0 then Some (bought_norm / sold_norm) else None)\<rparr>])
       else if sold_id = frx_index meta \<and> bought_id = deusd_index meta then
         Inr (swaps @ [\<lparr>time = ts, block = blk, txhash = ev_transactionHash evlog,
                direction = ''frxUSD->deUSD'',
                deusd_flow = bought_norm, frx_flow = - sold_norm,
                price_deusd_in_frx = (if bought_norm > 0 then Some (sold_norm / bought_norm) else None)\<rparr>])
       else Inr swaps))"

text \<open>
  curve\_analyzer.py, the body of both loops of \<open>analyze_swaps_last_days\<close> from the
  normalisation on (lines 321 to 348, and again lines 380 to 404): \<open>Inr None\<close> is
  \<open>continue\<close>, \<open>Inr (Some s)\<close> is the dictionary that is appended.
\<close>

definition swap_of_exchange ::
  "pool_meta \<Rightarrow> int \<Rightarrow> int \<Rightarrow> string \<Rightarrow> int \<Rightarrow> int \<Rightarrow> int \<Rightarrow> int \<Rightarrow> py_error + swap option" where
  "swap_of_exchange meta ts blk tx sold_id sold bought_id bought =
     (let dec_by_index = [0 \<mapsto> dec0 meta, 1 \<mapsto> dec1 meta];
          sym_by_index = [0 \<mapsto> (if sym0 meta = [] then ''Token0'' else sym0 meta),
                          1 \<mapsto> (if sym1 meta = [] then ''Token1'' else sym1 meta)] in
      case getitem dec_by_index sold_id of Inl e \<Rightarrow> Inl e | Inr ds \<Rightarrow>
      case getitem dec_by_index bought_id of Inl e \<Rightarrow> Inl e | Inr db \<Rightarrow>
      (let sold_norm = normalise sold ds;
           bought_norm = normalise bought db in
       case (if sold_id = 0 \<and> bought_id = 1 then
               Some (if sold_norm > 0 then Some (bought_norm / sold_norm) else None,
                     - sold_norm, bought_norm)
             else if sold_id = 1 \<and> bought_id = 0 then
               Some (if bought_norm > 0 then Some (sold_norm / bought_norm) else None,
                     bought_norm, - sold_norm)
             else None) of
         None \<Rightarrow> Inr None
       | Some (price_t0_in_t1, flow0, flow1) \<Rightarrow>
           (case getitem sym_by_index sold_id of Inl e \<Rightarrow> Inl e | Inr ss \<Rightarrow>
            case getitem sym_by_index bought_id of Inl e \<Rightarrow> Inl e | Inr sb \<Rightarrow>
            Inr (Some \<lparr>time = ts, block = blk, txhash = tx, direction = ss @ ''->'' @ sb,
                   deusd_flow = flow0, frx_flow = flow1,
                   price_deusd_in_frx = price_t0_in_t1,
                   token0_flow = flow0, token1_flow = flow1,
                   price_token0_in_token1 = price_t0_in_t1\<rparr>))))"

text \<open>The structured pass: one event (lines 316 to 348).\<close>

definition abi_swap :: "pool_meta \<Rightarrow> (int \<Rightarrow> int) \<Rightarrow> event_log \<Rightarrow> py_error + swap option" where
  "abi_swap meta get_ts ev =
     (let a = ev_args ev;
          blk = ev_blockNumber ev;
          ts = get_ts blk in
      swap_of_exchange meta ts blk (ev_transactionHash ev)
        (a_sold_id a) (a_tokens_sold a) (a_bought_id a) (a_tokens_bought a))"

text \<open>
  The structured pass over the events the generator yields (lines 314 to 352). An exception
  ends the pass and is swallowed by \<open>except Exception: pass\<close>; the records appended so far
  stay. \<open>timed_out n\<close> tells whether the time budget was found exceeded at the check after
  the \<open>n\<close>-th record was appended.
\<close>

fun abi_pass ::
  "pool_meta \<Rightarrow> (int \<Rightarrow> int) \<Rightarrow> (nat \<Rightarrow> bool) \<Rightarrow> event_log list \<Rightarrow> swap list \<Rightarrow> swap list" where
  "abi_pass meta get_ts timed_out [] swaps = swaps"
| "abi_pass meta get_ts timed_out (ev # evs) swaps =
     (case abi_swap meta get_ts ev of
        Inl e \<Rightarrow> swaps
      | Inr None \<Rightarrow> abi_pass meta get_ts timed_out evs swaps
      | Inr (Some s) \<Rightarrow>
          if timed_out (length (swaps @ [s])) then swaps @ [s]
          else abi_pass meta get_ts timed_out evs (swaps @ [s]))"

text \<open>The payload of a raw entry as bytes (lines 360 to 374).\<close>

definition data_bytes :: "lib \<Rightarrow> raw_data \<Rightarrow> py_error + string" where
  "data_bytes l raw =
     (case raw of
        DataBytes b \<Rightarrow> Inr b
      | DataHexLike hx \<Rightarrow>
          (case bytes_fromhex l (if prefix ''0x'' hx then drop 2 hx else hx) of
             None \<Rightarrow> Inl (ValueError ''fromhex'') | Some b \<Rightarrow> Inr b)
      | DataStr s \<Rightarrow>
          (case bytes_fromhex l (if prefix ''0x'' s then drop 2 s else s) of
             None \<Rightarrow> Inl (ValueError ''fromhex'') | Some b \<Rightarrow> Inr b)
      | DataNone \<Rightarrow> Inl TypeError)"

text \<open>
  The decoding of a raw entry (lines 375 to 379). The first component is the value bound to
  \<open>buyer\<close>, which only the branch for one topic binds.
\<close>

definition decode_token_exchange ::
  "lib \<Rightarrow> string list \<Rightarrow> string \<Rightarrow> py_error + (string option \<times> int \<times> int \<times> int \<times> int)" where
  "decode_token_exchange l tps data =
     (if length tps = 1 then
        (case abi_decode l [''address'', ''int128'', ''uint256'', ''int128'', ''uint256''] data of
           Some [AbiAddress buyer, AbiInt sold_id, AbiInt tokens_sold, AbiInt bought_id, AbiInt tokens_bought] \<Rightarrow>
             Inr (Some buyer, sold_id, tokens_sold, bought_id, tokens_bought)
         | _ \<Rightarrow> Inl DecodeError)
      else
        (case abi_decode l [''int128'', ''uint256'', ''int128'', ''uint256''] data of
           Some [AbiInt sold_id, AbiInt tokens_sold, AbiInt bought_id, AbiInt tokens_bought] \<Rightarrow>
             Inr (None, sold_id, tokens_sold, bought_id, tokens_bought)
         | _ \<Rightarrow> Inl DecodeError))"

text \<open>The raw pass: one entry (lines 357 to 404).\<close>

definition raw_swap :: "lib \<Rightarrow> pool_meta \<Rightarrow> (int \<Rightarrow> int) \<Rightarrow> raw_log \<Rightarrow> py_error + swap option" where
  "raw_swap l meta get_ts lg =
     (let blk = lg_blockNumber lg;
          ts = get_ts blk;
          tps = lg_topics lg in
      case data_bytes l (lg_data lg) of Inl e \<Rightarrow> Inl e | Inr data \<Rightarrow>
      case decode_token_exchange l tps data of Inl e \<Rightarrow> Inl e
      | Inr (buyer, sold_id, tokens_sold, bought_id, tokens_bought) \<Rightarrow>
          swap_of_exchange meta ts blk (lg_transactionHash lg)
            sold_id tokens_sold bought_id tokens_bought)"

text \<open>The raw pass over the entries the generator yields; an exception leaves the function.\<close>

fun raw_pass ::
  "lib \<Rightarrow> pool_meta \<Rightarrow> (int \<Rightarrow> int) \<Rightarrow> raw_log list \<Rightarrow> swap list \<Rightarrow> py_error + swap list" where
  "raw_pass l meta get_ts [] swaps = Inr swaps"
| "raw_pass l meta get_ts (lg # lgs) swaps =
     (case raw_swap l meta get_ts lg of
        Inl e \<Rightarrow> Inl e
      | Inr None \<Rightarrow> raw_pass l meta get_ts lgs swaps
      | Inr (Some s) \<Rightarrow> raw_pass l meta get_ts lgs (swaps @ [s]))"

text \<open>
  \<open>analyze_swaps_last_days\<close> (lines 300 to 404), up to the list \<open>swaps\<close> it then turns into
  a data frame. \<open>now\<close> is the time of the call in whole seconds. The result tells the list,
  or the exception that left the function, and the run of \<open>fetch_token_exchange_raw\<close> read to
  its end when the fallback was taken. \<open>None\<close> is a call that never returns.
\<close>

record analysis =
  raw_run :: "raw_log run option"
  swaps_out :: "py_error + swap list"

definition analyze_swaps_last_days ::
  "lib \<Rightarrow> w3 \<Rightarrow> string \<Rightarrow> pool_meta \<Rightarrow> int \<Rightarrow> int \<Rightarrow> (nat \<Rightarrow> bool) \<Rightarrow> analysis option" where
  "analyze_swaps_last_days l node pool_addr meta days now timed_out =
     (let start_ts = now - days * 86400;
          end_ts = now;
          start_block = block_at_timestamp (eth_block_number node) (eth_get_block_timestamp node)
                          start_ts 17000000;
          end_block = block_at_timestamp (eth_block_number node) (eth_get_block_timestamp node)
                          end_ts 17000000 in
      case fetch_event_logs_adaptive (events_TokenExchange_get_logs node pool_addr)
             start_block end_block 500 20000 of
        None \<Rightarrow> None
      | Some ra \<Rightarrow>
          (let swaps = abi_pass meta (eth_get_block_timestamp node) timed_out (yielded ra) [] in
           if swaps = [] then
             (case fetch_token_exchange_raw (keccak_text_hex l) (eth_get_logs node) pool_addr
                     start_block end_block 500 20000 of
                None \<Rightarrow> None
              | Some rr \<Rightarrow>
                  Some \<lparr>raw_run = Some rr,
                        swaps_out = raw_pass l meta (eth_get_block_timestamp node) (yielded rr) []\<rparr>)
           else Some \<lparr>raw_run = None, swaps_out = Inr swaps\<rparr>))"

section \<open>Notions used to state the properties of the analysis\<close>

text \<open>
  An exchange between the two coins of the pool: coin 0 for coin 1, or coin 1 for coin 0.
\<close>

definition is_exchange :: "int \<Rightarrow> int \<Rightarrow> bool" where
  "is_exchange sold_id bought_id \<longleftrightarrow> (sold_id = 0 \<and> bought_id = 1) \<or> (sold_id = 1 \<and> bought_id = 0)"

text \<open>
  The record expected for such an exchange, in which \<open>sold\<close> units of coin \<open>sold_id\<close> went
  into the pool and \<open>bought\<close> units of the other coin came out: the amounts are divided by
  ten to the decimals of their coin; the flow of the coin sold is negative and that of the
  coin bought positive; the price is the amount of coin 1 for one of coin 0, undefined when
  the amount of coin 0 is not positive; the direction names the coin sold, then the coin
  bought, an empty symbol being replaced by \<open>Token0\<close> or \<open>Token1\<close>.
\<close>

definition exchange_record :: "pool_meta \<Rightarrow> int \<Rightarrow> int \<Rightarrow> string \<Rightarrow> int \<Rightarrow> int \<Rightarrow> int \<Rightarrow> swap" where
  "exchange_record meta ts blk tx sold_id sold bought =
     (let label0 = (if sym0 meta = [] then ''Token0'' else sym0 meta);
          label1 = (if sym1 meta = [] then ''Token1'' else sym1 meta);
          amount0 = (if sold_id = 0 then normalise sold (dec0 meta) else normalise bought (dec0 meta));
          amount1 = (if sold_id = 0 then normalise bought (dec1 meta) else normalise sold (dec1 meta));
          flow0 = (if sold_id = 0 then - amount0 else amount0);
          flow1 = (if sold_id = 0 then amount1 else - amount1);
          price = (if amount0 > 0 then Some (amount1 / amount0) else None) in
      \<lparr>time = ts, block = blk, txhash = tx,
       direction = (if sold_id = 0 then label0 @ ''->'' @ label1 else label1 @ ''->'' @ label0),
       deusd_flow = flow0, frx_flow = flow1, price_deusd_in_frx = price,
       token0_flow = flow0, token1_flow = flow1, price_token0_in_token1 = price\<rparr>)"

text \<open>
  The payload \<open>data\<close> of an entry with the topics \<open>tps\<close> decodes to the four values that are
  not indexed: behind an address when there is one topic, alone otherwise.
\<close>

definition decoded_as :: "lib \<Rightarrow> string list \<Rightarrow> string \<Rightarrow> int \<times> int \<times> int \<times> int \<Rightarrow> bool" where
  "decoded_as l tps data v =
     (case v of (sold_id, tokens_sold, bought_id, tokens_bought) \<Rightarrow>
        if length tps = 1 then
          (\<exists>buyer. abi_decode l [''address'', ''int128'', ''uint256'', ''int128'', ''uint256''] data =
             Some [AbiAddress buyer, AbiInt sold_id, AbiInt tokens_sold, AbiInt bought_id,
                   AbiInt tokens_bought])
        else
          abi_decode l [''int128'', ''uint256'', ''int128'', ''uint256''] data =
            Some [AbiInt sold_id, AbiInt tokens_sold, AbiInt bought_id, AbiInt tokens_bought])"

text \<open>
  The answers \<open>g a b\<close> of a node for the windows \<open>[a, b]\<close> add up: the answer for a range
  is the answer for its first part followed by the answer for the rest.
\<close>

definition adds_up :: "(int \<Rightarrow> int \<Rightarrow> 'l list) \<Rightarrow> bool" where
  "adds_up g \<longleftrightarrow> (\<forall>a b c. a \<le> b \<and> b < c \<longrightarrow> g a c = g a b @ g (b + 1) c)"

section \<open>Inputs to run the swap processing on\<close>

definition meta0 :: pool_meta where
  "meta0 = \<lparr>pm_address = ''0xpool'', coin0 = ''0xc0'', coin1 = ''0xc1'',
             sym0 = ''deUSD'', sym1 = ''frxUSD'', dec0 = 18, dec1 = 18,
             deusd_index = 0, frx_index = 1\<rparr>"

text \<open>
  A toy decoder, one byte for each value, and a toy \<open>fromhex\<close> that gives its argument
  back: enough to run the code; the theorems hold for every library.
\<close>

definition toy_abi_decode :: "string list \<Rightarrow> string \<Rightarrow> abi_value list option" where
  "toy_abi_decode types data =
     (if length data = length types
      then Some (map2 (\<lambda>t c. if t = ''address'' then AbiAddress [c] else AbiInt (of_char c)) types data)
      else None)"

definition lib0 :: lib where
  "lib0 = \<lparr>keccak_text_hex = (\<lambda>s. ''d013ca23''), abi_decode = toy_abi_decode,
            bytes_fromhex = Some, urlparse_path = (\<lambda>s. None), to_checksum_address = Some,
            to_int_hexstr = (\<lambda>s. None), to_int_bytes = (\<lambda>s. None), to_hex = (\<lambda>s. None)\<rparr>"

text \<open>An exchange of coin 2 for coin 0, as a pool of three coins emits it.\<close>

definition ev_three_coins :: event_log where
  "ev_three_coins =
     \<lparr>ev_args = \<lparr>a_buyer = ''0xb'', a_sold_id = 2, a_tokens_sold = 5, a_bought_id = 0,
                  a_tokens_bought = 7\<rparr>,
      ev_blockNumber = 17000050, ev_transactionHash = ''0xtx''\<rparr>"

definition lg_three_coins :: raw_log where
  "lg_three_coins =
     \<lparr>lg_address = ''0xpool'', lg_blockNumber = 17000050, lg_topics = [''0xd013ca23'', ''0xb''],
      lg_data = DataBytes [char_of (2::nat), char_of (5::nat), char_of (0::nat), char_of (7::nat)],
      lg_transactionHash = ''0xtx''\<rparr>"

text \<open>The same exchange of coin 0 for coin 1 in the two shapes of a raw entry.\<close>

definition lg_one_topic :: raw_log where
  "lg_one_topic =
     \<lparr>lg_address = ''0xpool'', lg_blockNumber = 17000050, lg_topics = [''0xd013ca23''],
      lg_data = DataBytes [CHR ''b'', char_of (0::nat), char_of (5::nat), char_of (1::nat), char_of (7::nat)],
      lg_transactionHash = ''0xtx''\<rparr>"

definition lg_two_topics :: raw_log where
  "lg_two_topics =
     \<lparr>lg_address = ''0xpool'', lg_blockNumber = 17000050, lg_topics = [''0xd013ca23'', ''b''],
      lg_data = DataBytes [char_of (0::nat), char_of (5::nat), char_of (1::nat), char_of (7::nat)],
      lg_transactionHash = ''0xtx''\<rparr>"

text \<open>
  A node with head 17000100 and a block every 12 seconds, whose structured filter finds
  nothing while its raw filter finds the entry of block 17000050, when asked for the pool and
  the topic of the event.
\<close>

definition node0 :: w3 where
  "node0 =
     \<lparr>eth_block_number = 17000100,
      eth_get_block_timestamp = (\<lambda>b. 12 * b),
      events_TokenExchange_get_logs = (\<lambda>addr n a b. Logs []),
      eth_get_logs = (\<lambda>n f. Logs (if address f = ''0xpool'' \<and> topics f = [''0xd013ca23''] \<and>
                                        fromBlock f \<le> 17000050 \<and> 17000050 \<le> toBlock f
                                     then [lg_two_topics] else [])),
      eth_get_transaction_receipt = (\<lambda>h. None),
      call_coins = (\<lambda>c i. if c = ''0xpool'' then Some (if i = 0 then ''0xc0'' else ''0xc1'') else None),
      call_symbol = (\<lambda>c. None),
      call_decimals = (\<lambda>c. if c = ''0xc0'' then Some 6 else None),
      call_minter = (\<lambda>c. None),
      call_get_registry = (\<lambda>c. None),
      call_get_pool_from_lp_token = (\<lambda>reg c. None)\<rparr>"

text \<open>
  The same node with a structured filter that finds, for the pool, an exchange of coin 1 for
  coin 0 in block 17000050.
\<close>

definition ev_swap :: event_log where
  "ev_swap =
     \<lparr>ev_args = \<lparr>a_buyer = ''0xb'', a_sold_id = 1, a_tokens_sold = 3, a_bought_id = 0,
                  a_tokens_bought = 6\<rparr>,
      ev_blockNumber = 17000050, ev_transactionHash = ''0xtx2''\<rparr>"

definition node2 :: w3 where
  "node2 = node0\<lparr>events_TokenExchange_get_logs :=
     (\<lambda>addr n a b. Logs (if addr = ''0xpool'' \<and> a \<le> 17000050 \<and> 17000050 \<le> b
                          then [ev_swap] else []))\<rparr>"

section \<open>Pool metadata\<close>

text \<open>
  The calls a function makes to contracts and to the node are traced, in order, beside its
  result.
\<close>

datatype call =
    Coins string int
  | Symbol string
  | Decimals string
  | Minter string
  | GetRegistry string
  | GetPoolFromLpToken string string
  | GetTransactionReceipt string

text \<open>
  Which index is deUSD and which is frxUSD, from the uppercased symbols (curve\_analyzer.py
  lines 183 to 192, analysis\_curve\_pool.py lines 100 to 109).
\<close>

definition role_indices :: "string \<Rightarrow> string \<Rightarrow> int \<times> int" where
  "role_indices up0 up1 =
     (if sublist ''DEUSD'' up0 then (0, 1)
      else if sublist ''DEUSD'' up1 then (1, 0)
      else if sublist ''FRXUSD'' up0 then (1, 0)
      else if sublist ''FRXUSD'' up1 then (0, 1)
      else (0, 1))"

text \<open>curve\_analyzer.py, \<open>get_pool_meta\<close> (lines 160 to 193).\<close>

definition get_pool_meta :: "w3 \<Rightarrow> string \<Rightarrow> (py_error + pool_meta) \<times> call list" where
  "get_pool_meta node pool_addr =
     (case call_coins node pool_addr 0 of
        None \<Rightarrow> (Inl NodeError, [Coins pool_addr 0])
      | Some c0 \<Rightarrow>
     (case call_coins node pool_addr 1 of
        None \<Rightarrow> (Inl NodeError, [Coins pool_addr 0, Coins pool_addr 1])
      | Some c1 \<Rightarrow>
     (let s0 = (case call_symbol node c0 of Some s \<Rightarrow> s | None \<Rightarrow> ''T0'');
          s1 = (case call_symbol node c1 of Some s \<Rightarrow> s | None \<Rightarrow> ''T1'');
          d0 = (case call_decimals node c0 of Some d \<Rightarrow> d | None \<Rightarrow> 18);
          d1 = (case call_decimals node c1 of Some d \<Rightarrow> d | None \<Rightarrow> 18);
          (di, fi) = role_indices (upper s0) (upper s1) in
      (Inr \<lparr>pm_address = pool_addr, coin0 = c0, coin1 = c1, sym0 = s0, sym1 = s1,
             dec0 = d0, dec1 = d1, deusd_index = di, frx_index = fi\<rparr>,
       [Coins pool_addr 0, Coins pool_addr 1, Symbol c0, Symbol c1, Decimals c0, Decimals c1]))))"

text \<open>
  analysis\_curve\_pool.py: \<open>safe\<close> (lines 87 to 91), whose first argument is the outcome of
  the call \<open>fn()\<close>, and the tokens of the pool as the module reads them (lines 82 to 111).
\<close>

definition safe :: "'a option \<Rightarrow> 'a \<Rightarrow> 'a" where
  "safe fn fallback = (case fn of Some v \<Rightarrow> v | None \<Rightarrow> fallback)"

definition acp_pool_meta :: "w3 \<Rightarrow> string \<Rightarrow> py_error + pool_meta" where
  "acp_pool_meta node POOL_ADDRESS =
     (case call_coins node POOL_ADDRESS 0 of None \<Rightarrow> Inl NodeError | Some c0 \<Rightarrow>
      case call_coins node POOL_ADDRESS 1 of None \<Rightarrow> Inl NodeError | Some c1 \<Rightarrow>
      (let s0 = safe (call_symbol node c0) ''T0'';
           s1 = safe (call_symbol node c1) ''T1'';
           d0 = safe (call_decimals node c0) 18;
           d1 = safe (call_decimals node c1) 18;
           (di, fi) = role_indices (upper s0) (upper s1) in
       Inr \<lparr>pm_address = POOL_ADDRESS, coin0 = c0, coin1 = c1, sym0 = s0, sym1 = s1,
             dec0 = d0, dec1 = d1, deusd_index = di, frx_index = fi\<rparr>))"

section \<open>Resolving the pool\<close>

text \<open>
  \<open>str.strip()\<close> and \<open>str.split('/')\<close>. A character of a \<open>string\<close> is a code point
  below 256; those Python takes for white space are the ASCII ones, the next-line character
  133 and the no-break space 160.
\<close>

definition is_space :: "char \<Rightarrow> bool" where
  "is_space c = ((of_char c :: nat) \<in> {9, 10, 11, 12, 13, 28, 29, 30, 31, 32, 133, 160})"

definition strip :: "string \<Rightarrow> string" where
  "strip s = rev (dropWhile is_space (rev (dropWhile is_space s)))"

fun split_slash :: "string \<Rightarrow> string list" where
  "split_slash [] = [[]]"
| "split_slash (c # cs) =
     (if c = CHR ''/'' then [] # split_slash cs
      else (case split_slash cs of [] \<Rightarrow> [[c]] | w # ws \<Rightarrow> (c # w) # ws))"

definition CURVE_ADDRESS_PROVIDER :: string where
  "CURVE_ADDRESS_PROVIDER = ''0x0000000022D53366457F9d5E68Ec105046FC4383''"

text \<open>
  The registry path (lines 125 to 146): the pool it returns, or \<open>None\<close> when the \<open>try\<close>
  block ends without returning, by an exception or by a zero address.
\<close>

definition registry_pool :: "lib \<Rightarrow> w3 \<Rightarrow> string \<Rightarrow> string option \<times> call list" where
  "registry_pool l node addr =
     (case call_get_registry node CURVE_ADDRESS_PROVIDER of
        None \<Rightarrow> (None, [GetRegistry CURVE_ADDRESS_PROVIDER])
      | Some reg_addr \<Rightarrow>
          (case call_get_pool_from_lp_token node reg_addr addr of
             None \<Rightarrow> (None, [GetRegistry CURVE_ADDRESS_PROVIDER, GetPoolFromLpToken reg_addr addr])
           | Some pool_addr \<Rightarrow>
               (case (case pool_addr of
                        RetBytes b \<Rightarrow>
                          (case to_int_bytes l b of None \<Rightarrow> None
                           | Some val \<Rightarrow>
                               (case to_hex l b of None \<Rightarrow> None | Some hx \<Rightarrow> Some (val, hx)))
                      | RetHexLike hx \<Rightarrow>
                          (case to_int_hexstr l hx of None \<Rightarrow> None | Some val \<Rightarrow> Some (val, hx))
                      | RetStr s \<Rightarrow>
                          (case to_int_hexstr l s of None \<Rightarrow> None | Some val \<Rightarrow> Some (val, s))) of
                  None \<Rightarrow> None
                | Some (val, addr_hex) \<Rightarrow>
                    if val \<noteq> 0 then to_checksum_address l addr_hex else None,
                [GetRegistry CURVE_ADDRESS_PROVIDER, GetPoolFromLpToken reg_addr addr])))"

text \<open>The branch for an address (lines 110 to 148).\<close>

definition resolve_address :: "lib \<Rightarrow> w3 \<Rightarrow> string \<Rightarrow> (py_error + string) \<times> call list" where
  "resolve_address l node ui =
     (case to_checksum_address l ui of
        None \<Rightarrow> (Inl NodeError, [])
      | Some addr \<Rightarrow>
          (case call_coins node addr 0 of
             Some c \<Rightarrow> (Inr addr, [Coins addr 0])
           | None \<Rightarrow>
               (case (case call_minter node addr of
                        None \<Rightarrow> None
                      | Some pool_addr \<Rightarrow> to_checksum_address l pool_addr) of
                  Some p \<Rightarrow> (Inr p, [Coins addr 0, Minter addr])
                | None \<Rightarrow>
                    (case registry_pool l node addr of
                       (Some p, tr) \<Rightarrow> (Inr p, [Coins addr 0, Minter addr] @ tr)
                     | (None, tr) \<Rightarrow>
                         (Inl (ValueError ''Provided address does not appear to be a Curve pool or LP token resolvable via minter/registry''),
                          [Coins addr 0, Minter addr] @ tr)))))"

text \<open>
  The branch for a transaction hash (lines 149 to 156): \<open>None\<close> when it ends without
  returning or raising.
\<close>

definition resolve_tx :: "lib \<Rightarrow> w3 \<Rightarrow> string \<Rightarrow> (py_error + string) option \<times> call list" where
  "resolve_tx l node ui =
     (case eth_get_transaction_receipt node ui of
        None \<Rightarrow> (Some (Inl NodeError), [GetTransactionReceipt ui])
      | Some rcpt \<Rightarrow>
          (case find (\<lambda>lg. case lg_topics lg of [] \<Rightarrow> False
                           | t # ts \<Rightarrow> lower t = lower (TOPIC_TOKEN_EX (keccak_text_hex l)))
                  (rc_logs rcpt) of
             Some lg \<Rightarrow>
               (case to_checksum_address l (lg_address lg) of
                  None \<Rightarrow> Some (Inl NodeError) | Some a \<Rightarrow> Some (Inr a))
           | None \<Rightarrow>
               (case rc_to rcpt of
                  None \<Rightarrow> None
                | Some t \<Rightarrow>
                    if t = [] then None
                    else (case to_checksum_address l t of
                            None \<Rightarrow> Some (Inl NodeError) | Some a \<Rightarrow> Some (Inr a))),
           [GetTransactionReceipt ui]))"

text \<open>
  \<open>resolve_pool_from_input\<close> (lines 97 to 157). A missing \<open>user_input\<close> is the empty
  string.
\<close>

definition resolve_pool_from_input :: "lib \<Rightarrow> w3 \<Rightarrow> string \<Rightarrow> (py_error + string) \<times> call list" where
  "resolve_pool_from_input l node user_input =
     (let ui = strip user_input;
          ui = (if prefix ''http'' ui then
                  (case urlparse_path l ui of
                     None \<Rightarrow> ui
                   | Some path \<Rightarrow>
                       (let parts = filter (\<lambda>p. p \<noteq> []) (split_slash path) in
                        if length parts \<ge> 2 \<and>
                           (lower (parts ! 0) = ''address'' \<or> lower (parts ! 0) = ''tx'')
                        then parts ! 1 else ui))
                else ui);
          ui = strip ui in
      if prefix ''0x'' ui \<and> length ui = 42 then resolve_address l node ui
      else
        (case (if prefix ''0x'' ui \<and> length ui = 66 then resolve_tx l node ui else (None, [])) of
           (Some res, tr) \<Rightarrow> (res, tr)
         | (None, tr) \<Rightarrow>
             (Inl (ValueError ''Provide a Curve pool address or a swap tx hash (or an Etherscan URL to either)''),
              tr)))"

text \<open>
  A node on which \<open>coins(0)\<close> answers at the address of the pool of analysis\_curve\_pool.py,
  and a library whose \<open>urlparse\<close> gives the path of the one URL it knows.
\<close>

definition node1 :: w3 where
  "node1 = node0\<lparr>call_coins :=
     (\<lambda>c i. if c = ''0x4eeb03b2b8f55159f47b3548faafe3efaff43eb9'' then Some ''0xc0'' else None)\<rparr>"

definition lib1 :: lib where
  "lib1 = lib0\<lparr>urlparse_path :=
     (\<lambda>u. if u = ''https://etherscan.io/address/0x4eeb03b2b8f55159f47b3548faafe3efaff43eb9''
           then Some ''/address/0x4eeb03b2b8f55159f47b3548faafe3efaff43eb9'' else None)\<rparr>"

chapter \<open>Verified properties\<close>

section \<open>The loops of the fetchers\<close>

lemma steps_ok_Nil: "steps_ok step []"
  by (simp add: steps_ok_def)

lemma steps_ok_Cons: "1 \<le> s' \<Longrightarrow> s' \<le> s \<Longrightarrow> steps_ok s' vs \<Longrightarrow> steps_ok s (s' # vs)"
  by (auto simp: steps_ok_def)

lemma fetch_event_logs_loop_returns:
  assumes "1 \<le> step"
  shows "\<exists>e r'. fetch_event_logs_loop q to_block start step r = Some (e, r') \<and>
           (\<exists>vs. step_values r' = step_values r @ vs \<and> steps_ok step vs)"
  using assms
proof (induction "nat (to_block - start + 1) + nat step" arbitrary: start step r rule: less_induct)
  case less
  let ?P = "\<lambda>start step r0 res. \<exists>e r'. res = Some (e, r') \<and>
           (\<exists>vs. step_values r' = step_values r0 @ vs \<and> steps_ok step vs)"
  define end_b where "end_b = min (start + step - 1) to_block"
  define r1 where "r1 = r\<lparr>queried := queried r @ [(start, end_b)]\<rparr>"
  have sv1: "step_values r1 = step_values r" by (simp add: r1_def)
  show ?case
  proof (cases "start \<le> to_block")
    case False
    then have "fetch_event_logs_loop q to_block start step r = Some (None, r)"
      by (subst fetch_event_logs_loop.simps) simp
    then show ?thesis by (simp add: steps_ok_Nil)
  next
    case True
    with less.prems have adv: "start < end_b + 1" "end_b \<le> to_block" by (auto simp: end_b_def)
    show ?thesis
    proof (cases "q (length (queried r)) start end_b")
      case (Logs ls)
      have eq: "fetch_event_logs_loop q to_block start step r =
            fetch_event_logs_loop q to_block (end_b + 1) step (r1\<lparr>yielded := yielded r1 @ ls\<rparr>)"
        using True Logs by (subst fetch_event_logs_loop.simps) (simp add: Let_def end_b_def r1_def)
      have "nat (to_block - (end_b + 1) + 1) + nat step < nat (to_block - start + 1) + nat step"
        using adv True by linarith
      from less.hyps[OF this less.prems, of "r1\<lparr>yielded := yielded r1 @ ls\<rparr>"] eq sv1
      show ?thesis by simp
    next
      case (Raises e)
      show ?thesis
      proof (cases "is_range_limit_error e")
        case False
        then have "fetch_event_logs_loop q to_block start step r = Some (Some e, r1)"
          using True Raises by (subst fetch_event_logs_loop.simps) (simp add: Let_def end_b_def r1_def)
        then show ?thesis using sv1 by (simp add: steps_ok_Nil)
      next
        case cap: True
        show ?thesis
        proof (cases "step > 1")
          case False
          have eq: "fetch_event_logs_loop q to_block start step r =
                fetch_event_logs_loop q to_block (end_b + 1) step r1"
            using True Raises cap False
            by (subst fetch_event_logs_loop.simps) (simp add: Let_def end_b_def r1_def)
          have "nat (to_block - (end_b + 1) + 1) + nat step < nat (to_block - start + 1) + nat step"
            using adv True by linarith
          from less.hyps[OF this less.prems, of r1] eq sv1
          show ?thesis by simp
        next
          case big: True
          define step' where "step' = (if step > 200 then step div 2 else if step > 50 then 50
                                        else if step > 10 then 10 else 1)"
          have s': "1 \<le> step'" "step' < step" using big by (auto simp: step'_def)
          have eq: "fetch_event_logs_loop q to_block start step r =
                fetch_event_logs_loop q to_block start step'
                  (r1\<lparr>step_values := step_values r1 @ [step']\<rparr>)"
            using True Raises cap big
            by (subst fetch_event_logs_loop.simps) (simp add: Let_def end_b_def r1_def step'_def)
          have "nat (to_block - start + 1) + nat step' < nat (to_block - start + 1) + nat step"
            using s' by linarith
          from less.hyps[OF this s'(1), of "r1\<lparr>step_values := step_values r1 @ [step']\<rparr>"]
          obtain e' r' vs where res: "fetch_event_logs_loop q to_block start step'
                  (r1\<lparr>step_values := step_values r1 @ [step']\<rparr>) = Some (e', r')"
            "step_values r' = (step_values r1 @ [step']) @ vs" "steps_ok step' vs"
            by auto
          have "steps_ok step (step' # vs)" using s' res(3) by (intro steps_ok_Cons) auto
          with res eq sv1 show ?thesis by auto
        qed
      qed
    qed
  qed
qed


lemma attempt_window_post:
  assumes "1 \<le> step" "start \<le> to_block" "start \<le> end_b"
  shows "\<exists>start' step' pages' r' vs.
           attempt_window q from_block total_blocks to_block start end_b step retries pages r =
             (start', step', pages', r') \<and>
           start < start' \<and> 1 \<le> step' \<and>
           step_values r' = step_values r @ vs \<and> steps_ok step vs \<and> last (step # vs) = step'"
  using assms
proof (induction q from_block total_blocks to_block start end_b step retries pages r
        rule: attempt_window.induct)
  case (1 q from_block total_blocks to_block start end_b step retries pages r)
  define r1 where "r1 = r\<lparr>queried := queried r @ [(start, end_b)]\<rparr>"
  have sv1: "step_values r1 = step_values r" by (simp add: r1_def)
  note unfold = attempt_window.simps[of q from_block total_blocks to_block start end_b step retries pages r]
  have stop: "\<exists>start' step' pages' r' vs.
           (end_b + 1, step, p, r1) = (start', step', pages', r') \<and>
           start < start' \<and> 1 \<le> step' \<and>
           step_values r' = step_values r @ vs \<and> steps_ok step vs \<and> last (step # vs) = step'" for p :: nat
    using 1(3,5) sv1 steps_ok_Nil[of step]
    by (intro exI[of _ "end_b + 1"] exI[of _ step] exI[of _ p] exI[of _ r1] exI[of _ "[]"]) simp
  show ?case
  proof (cases "q (length (queried r)) start end_b")
    case (Logs ls)
    define r2 where "r2 = r1\<lparr>yielded := yielded r1 @ ls,
       progress := progress r1 @ [min 1 (of_int (end_b - from_block + 1) / of_int total_blocks)]\<rparr>"
    have "attempt_window q from_block total_blocks to_block start end_b step retries pages r =
            (end_b + 1, step, pages + 1, r2)"
      unfolding unfold using Logs by (simp add: Let_def r1_def r2_def)
    moreover have "step_values r2 = step_values r @ []" by (simp add: r2_def r1_def)
    ultimately show ?thesis using 1(3,5) steps_ok_Nil[of step]
      by (intro exI[of _ "end_b + 1"] exI[of _ step] exI[of _ "pages + 1"] exI[of _ r2] exI[of _ "[]"]) simp
  next
    case (Raises e)
    show ?thesis
    proof (cases "is_range_or_limit_error e")
      case cap: True
      show ?thesis
      proof (cases "retries + 1 \<ge> 5")
        case True
        have "attempt_window q from_block total_blocks to_block start end_b step retries pages r =
            (end_b + 1, step, pages, r1)"
          unfolding unfold using Raises cap True by (simp add: Let_def r1_def)
        with stop[of pages] show ?thesis by simp
      next
        case False
        define step' where "step' = max 1 (step div 2)"
        define end' where "end' = min (start + step' - 1) to_block"
        define r2 where "r2 = r1\<lparr>step_values := step_values r1 @ [step']\<rparr>"
        have s': "1 \<le> step'" "step' \<le> step" using 1(3) by (auto simp: step'_def)
        have e': "start \<le> end'" using s' 1(4) by (auto simp: end'_def)
        have eq: "attempt_window q from_block total_blocks to_block start end_b step retries pages r =
              attempt_window q from_block total_blocks to_block start end' step' (retries + 1) pages r2"
          unfolding unfold using Raises cap False
          by (simp add: Let_def r1_def r2_def step'_def end'_def)
        from 1(1)[OF r1_def Raises cap False, folded step'_def, folded end'_def, folded r2_def,
                  OF s'(1) 1(4) e']
        obtain a b c d vs where res:
          "attempt_window q from_block total_blocks to_block start end' step' (retries + 1) pages r2 = (a, b, c, d)"
          "start < a" "1 \<le> b" "step_values d = step_values r2 @ vs" "steps_ok step' vs"
          "last (step' # vs) = b"
          by blast
        have "step_values d = step_values r @ (step' # vs)" using res(4) sv1 by (simp add: r2_def)
        moreover have "steps_ok step (step' # vs)" using s' res(5) by (rule steps_ok_Cons)
        moreover have "last (step # step' # vs) = b" using res(6) by simp
        ultimately show ?thesis unfolding eq using res(1-3) by blast
      qed
    next
      case other: False
      show ?thesis
      proof (cases "retries + 1 \<ge> 2")
        case True
        have "attempt_window q from_block total_blocks to_block start end_b step retries pages r =
            (end_b + 1, step, pages, r1)"
          unfolding unfold using Raises other True by (simp add: Let_def r1_def)
        with stop[of pages] show ?thesis by simp
      next
        case False
        have eq: "attempt_window q from_block total_blocks to_block start end_b step retries pages r =
              attempt_window q from_block total_blocks to_block start end_b step (retries + 1) pages r1"
          unfolding unfold using Raises other False by (simp add: Let_def r1_def)
        from 1(2)[OF r1_def Raises other False 1(3) 1(4) 1(5)] sv1
        show ?thesis unfolding eq by simp
      qed
    qed
  qed
qed

lemma steps_ok_append:
  "steps_ok s vs \<Longrightarrow> last (s # vs) = s' \<Longrightarrow> steps_ok s' vs' \<Longrightarrow> steps_ok s (vs @ vs')"
proof (induction vs arbitrary: s)
  case Nil
  then show ?case by simp
next
  case (Cons v vs)
  from Cons.prems have a: "1 \<le> v" "v \<le> s" "steps_ok v vs" "last (v # vs) = s'"
    by (auto simp: steps_ok_def)
  from Cons.IH[OF a(3) a(4) Cons.prems(3)] a(1,2) show ?case
    by (simp add: steps_ok_Cons)
qed

lemma adaptive_loop_returns:
  assumes "1 \<le> step"
  shows "\<exists>r'. adaptive_loop q from_block total_blocks to_block max_pages start step pages r = Some r' \<and>
           (\<exists>vs. step_values r' = step_values r @ vs \<and> steps_ok step vs)"
  using assms
proof (induction "nat (to_block - start + 1)" arbitrary: start step pages r rule: less_induct)
  case less
  show ?case
  proof (cases "start \<le> to_block")
    case False
    then have "adaptive_loop q from_block total_blocks to_block max_pages start step pages r = Some r"
      by (subst adaptive_loop.simps) simp
    then show ?thesis by (simp add: steps_ok_Nil)
  next
    case True
    define end_b where "end_b = min (start + step - 1) to_block"
    have "start \<le> end_b" using True less.prems by (simp add: end_b_def)
    from attempt_window_post[where q = q and from_block = from_block and total_blocks = total_blocks
        and retries = 0 and pages = pages and r = r, OF less.prems True this]
    obtain start' step' pages' r' vs where
      aw: "attempt_window q from_block total_blocks to_block start end_b step 0 pages r =
             (start', step', pages', r')"
      and post: "start < start'" "1 \<le> step'" "step_values r' = step_values r @ vs"
      "steps_ok step vs" "last (step # vs) = step'"
      by blast
    show ?thesis
    proof (cases "int pages' \<ge> max_pages")
      case stop: True
      have "adaptive_loop q from_block total_blocks to_block max_pages start step pages r = Some r'"
        using True aw stop by (subst adaptive_loop.simps) (simp add: end_b_def)
      with post show ?thesis by auto
    next
      case go: False
      have eq: "adaptive_loop q from_block total_blocks to_block max_pages start step pages r =
                adaptive_loop q from_block total_blocks to_block max_pages start' step' pages' r'"
        using True aw go by (subst adaptive_loop.simps) (simp add: end_b_def)
      have "nat (to_block - start' + 1) < nat (to_block - start + 1)"
        using post(1) True by linarith
      from less.hyps[OF this post(2), of pages' r']
      obtain r'' vs' where res:
        "adaptive_loop q from_block total_blocks to_block max_pages start' step' pages' r' = Some r''"
        "step_values r'' = step_values r' @ vs'" "steps_ok step' vs'"
        by auto
      have "steps_ok step (vs @ vs')" using post(4,5) res(3) by (rule steps_ok_append)
      with res eq post(3) show ?thesis by auto
    qed
  qed
qed

lemma adaptive_loop_no_errors:
  assumes q: "\<forall>n a b. q n a b = Logs (g a b)"
    and add: "\<forall>a b c. a \<le> b \<and> b < c \<longrightarrow> g a c = g a b @ g (b + 1) c"
    and step: "1 \<le> step"
    and range: "from_block \<le> to_block"
    and tot: "total_blocks = max 1 (to_block - from_block + 1)"
    and start: "start \<le> to_block"
    and pg: "int pages + int (length (sub_windows start to_block step)) \<le> max_pages"
  shows "\<exists>r'. adaptive_loop q from_block total_blocks to_block max_pages start step pages r = Some r' \<and>
           yielded r' = yielded r @ g start to_block \<and>
           yielded r' = yielded r @ concat (map (\<lambda>(a, b). g a b) (sub_windows start to_block step)) \<and>
           queried r' = queried r @ sub_windows start to_block step \<and>
           step_values r' = step_values r \<and>
           progress r' \<noteq> [] \<and> last (progress r') = 1"
  using start pg
proof (induction "nat (to_block - start + 1)" arbitrary: start pages r rule: less_induct)
  case less
  define end_b where "end_b = min (start + step - 1) to_block"
  define r1 where "r1 = r\<lparr>queried := queried r @ [(start, end_b)],
      yielded := yielded r @ g start end_b,
      progress := progress r @ [min 1 (of_int (end_b - from_block + 1) / of_int total_blocks)]\<rparr>"
  have aw: "attempt_window q from_block total_blocks to_block start end_b step 0 pages r =
              (end_b + 1, step, pages + 1, r1)"
    using q by (subst attempt_window.simps) (simp add: Let_def r1_def)
  have sw: "sub_windows start to_block step = (start, end_b) # sub_windows (end_b + 1) to_block step"
    using less.prems(1) step by (subst sub_windows.simps) (simp add: end_b_def)
  have adv: "start \<le> end_b" "end_b \<le> to_block" using less.prems(1) step by (auto simp: end_b_def)
  show ?case
  proof (cases "end_b = to_block")
    case True
    have sw': "sub_windows (end_b + 1) to_block step = []"
      using True by (subst sub_windows.simps) simp
    have "adaptive_loop q from_block total_blocks to_block max_pages (end_b + 1) step (pages + 1) r1 = Some r1"
      using True by (subst adaptive_loop.simps) simp
    then have res: "adaptive_loop q from_block total_blocks to_block max_pages start step pages r = Some r1"
      using less.prems(1) aw by (subst adaptive_loop.simps) (simp add: end_b_def)
    have "min 1 (of_int (end_b - from_block + 1) / of_int total_blocks) = (1::rat)"
      using True range tot by simp
    then show ?thesis using res sw sw' True by (simp add: r1_def)
  next
    case False
    with adv have lt: "end_b < to_block" by simp
    have ne: "sub_windows (end_b + 1) to_block step \<noteq> []"
      using lt step by (subst sub_windows.simps) simp
    then have "1 \<le> length (sub_windows (end_b + 1) to_block step)"
      by (cases "sub_windows (end_b + 1) to_block step") auto
    with less.prems(2) sw have go: "\<not> int (pages + 1) \<ge> max_pages"
      and pg': "int (pages + 1) + int (length (sub_windows (end_b + 1) to_block step)) \<le> max_pages"
      by auto
    have eq: "adaptive_loop q from_block total_blocks to_block max_pages start step pages r =
              adaptive_loop q from_block total_blocks to_block max_pages (end_b + 1) step (pages + 1) r1"
      using less.prems(1) aw go by (subst adaptive_loop.simps) (simp add: end_b_def)
    have m: "nat (to_block - (end_b + 1) + 1) < nat (to_block - start + 1)"
      using adv lt by linarith
    have s': "end_b + 1 \<le> to_block" using lt by simp
    from less.hyps[OF m s' pg', of r1]
    obtain r' where res:
      "adaptive_loop q from_block total_blocks to_block max_pages (end_b + 1) step (pages + 1) r1 = Some r'"
      "yielded r' = yielded r1 @ g (end_b + 1) to_block"
      "yielded r' = yielded r1 @ concat (map (\<lambda>(a, b). g a b) (sub_windows (end_b + 1) to_block step))"
      "queried r' = queried r1 @ sub_windows (end_b + 1) to_block step"
      "step_values r' = step_values r1"
      "progress r' \<noteq> []" "last (progress r') = 1"
      by auto
    have "g start to_block = g start end_b @ g (end_b + 1) to_block"
      using add adv lt by blast
    with res eq sw show ?thesis by (simp add: r1_def)
  qed
qed

section \<open>Step values within one fetch\<close>

text \<open>
  C9. A call of \<open>fetch_event_logs\<close> or of \<open>fetch_event_logs_adaptive\<close> that starts with
  \<open>step \<ge> 1\<close> returns, and the values it assigns to \<open>step\<close> on the way, in order and after
  the first value, never grow and are all at least 1.
\<close>

theorem step_never_grows:
  assumes "1 \<le> step"
  shows "(\<exists>e r. fetch_event_logs event from_block to_block step = Some (e, r) \<and>
            sorted_wrt (\<ge>) (step # step_values r) \<and> (\<forall>v\<in>set (step_values r). 1 \<le> v)) \<and>
         (\<exists>r. fetch_event_logs_adaptive event' from_block to_block step max_pages = Some r \<and>
            sorted_wrt (\<ge>) (step # step_values r) \<and> (\<forall>v\<in>set (step_values r). 1 \<le> v))"
proof
  from fetch_event_logs_loop_returns[OF assms, of event to_block from_block empty_run]
  show "\<exists>e r. fetch_event_logs event from_block to_block step = Some (e, r) \<and>
            sorted_wrt (\<ge>) (step # step_values r) \<and> (\<forall>v\<in>set (step_values r). 1 \<le> v)"
    by (auto simp: fetch_event_logs_def empty_run_def steps_ok_def)
next
  from adaptive_loop_returns[OF assms, of event' from_block "max 1 (to_block - from_block + 1)"
      to_block max_pages from_block 0 empty_run]
  show "\<exists>r. fetch_event_logs_adaptive event' from_block to_block step max_pages = Some r \<and>
            sorted_wrt (\<ge>) (step # step_values r) \<and> (\<forall>v\<in>set (step_values r). 1 \<le> v)"
    by (auto simp: fetch_event_logs_adaptive_def empty_run_def steps_ok_def)
qed

theorem step_never_grows_witness:
  "(1::int) \<le> 1000 \<and>
   (\<exists>e r. fetch_event_logs narrow_node 1000 1099 1000 = Some (e, r) \<and>
            sorted_wrt (\<ge>) (1000 # step_values r) \<and> (\<forall>v\<in>set (step_values r). 1 \<le> v)) \<and>
   (\<exists>r. fetch_event_logs_adaptive narrow_node 1000 1099 1000 20000 = Some r \<and>
            sorted_wrt (\<ge>) (1000 # step_values r) \<and> (\<forall>v\<in>set (step_values r). 1 \<le> v))"
proof -
  have h: "(1::int) \<le> 1000" by simp
  from step_never_grows[OF h, of narrow_node 1000 1099 narrow_node 20000] h
  show ?thesis by simp
qed

text \<open>
  A run of \<open>fetch_event_logs\<close> on a node that refuses every window wider than 37 blocks:
  \<open>step\<close> goes down to 10 and the hundred blocks are yielded, each once.
\<close>

lemma narrow_node_run:
  "fetch_event_logs narrow_node 1000 1099 1000 =
     Some (None, \<lparr>yielded = [1000..1099],
                  queried = [(1000, 1099), (1000, 1099), (1000, 1099), (1000, 1099), (1000, 1049),
                             (1000, 1009), (1010, 1019), (1020, 1029), (1030, 1039), (1040, 1049),
                             (1050, 1059), (1060, 1069), (1070, 1079), (1080, 1089), (1090, 1099)],
                  step_values = [500, 250, 125, 50, 10], progress = []\<rparr>)"
  by code_simp

section \<open>Termination of the fetchers\<close>

lemma fetch_raw_logs_loop_stuck:
  assumes "fetch_raw_logs_loop q to_block start step r = Some y"
  shows "\<not> (start \<le> to_block \<and> (\<forall>n a b. \<exists>e. q n a b = Raises e \<and> is_range_limit_error e))"
proof (rule fetch_raw_logs_loop.raw_induct
    [where P = "\<lambda>q to_block start step r y.
        \<not> (start \<le> to_block \<and> (\<forall>n a b. \<exists>e. q n a b = Raises e \<and> is_range_limit_error e))",
     OF _ assms])
  fix loop :: "'a query \<Rightarrow> int \<Rightarrow> int \<Rightarrow> int \<Rightarrow> 'a run \<Rightarrow> (string option \<times> 'a run) option"
  fix q :: "'a query" and to_block start step :: int and r :: "'a run" and y
  assume IH: "\<And>q to_block start step r y. loop q to_block start step r = Some y \<Longrightarrow>
     \<not> (start \<le> to_block \<and> (\<forall>n a b. \<exists>e. q n a b = Raises e \<and> is_range_limit_error e))"
  assume eq: "(if start \<le> to_block then
       (let end_b = min (start + step - 1) to_block;
            r' = r\<lparr>queried := queried r @ [(start, end_b)]\<rparr> in
        case q (length (queried r)) start end_b of
          Logs ls \<Rightarrow>
            loop q to_block (end_b + 1) step (r'\<lparr>yielded := yielded r' @ ls\<rparr>)
        | Raises e \<Rightarrow>
            if is_range_limit_error e then
              loop q to_block start (max 1 (step div 2))
                (r'\<lparr>step_values := step_values r' @ [max 1 (step div 2)]\<rparr>)
            else Some (Some e, r'))
     else Some (None, r)) = Some y"
  show "\<not> (start \<le> to_block \<and> (\<forall>n a b. \<exists>e. q n a b = Raises e \<and> is_range_limit_error e))"
  proof
    assume h: "start \<le> to_block \<and> (\<forall>n a b. \<exists>e. q n a b = Raises e \<and> is_range_limit_error e)"
    then obtain e where e: "q (length (queried r)) start (min (start + step - 1) to_block) = Raises e"
      "is_range_limit_error e" by blast
    from eq h e have "loop q to_block start (max 1 (step div 2))
       (r\<lparr>queried := queried r @ [(start, min (start + step - 1) to_block)],
          step_values := step_values r @ [max 1 (step div 2)]\<rparr>) = Some y"
      by (simp add: Let_def)
    from IH[OF this] h show False by blast
  qed
qed

text \<open>
  C1. The claim fails for \<open>fetch_raw_logs\<close>: on a node that answers every query with a
  block-range error, the call over the single block 0 with \<open>step = 1000\<close> never returns.
  Once \<open>step\<close> has reached 1 the loop asks for the same window again and again. On the
  same node \<open>fetch_event_logs\<close> gives the window up at \<open>step = 1\<close>, after seven queries,
  and \<open>fetch_event_logs_adaptive\<close> skips it at the fifth failure.
\<close>

theorem fetch_raw_logs_never_returns:
  "fetch_raw_logs always_block_range ''0xpool'' ''0xtopic'' 0 0 1000 = None \<and>
   fetch_event_logs (raw_query always_block_range ''0xpool'' ''0xtopic'') 0 0 1000 =
     Some (None, \<lparr>yielded = [],
                  queried = [(0, 0), (0, 0), (0, 0), (0, 0), (0, 0), (0, 0), (0, 0)],
                  step_values = [500, 250, 125, 50, 10, 1], progress = []\<rparr>) \<and>
   fetch_event_logs_adaptive (raw_query always_block_range ''0xpool'' ''0xtopic'') 0 0 1000 20000 =
     Some \<lparr>yielded = [], queried = [(0, 0), (0, 0), (0, 0), (0, 0), (0, 0)],
           step_values = [500, 250, 125, 62], progress = []\<rparr>"
proof (intro conjI)
  show "fetch_raw_logs always_block_range ''0xpool'' ''0xtopic'' 0 0 1000 = None"
  proof (cases "fetch_raw_logs always_block_range ''0xpool'' ''0xtopic'' 0 0 1000")
    case None then show ?thesis .
  next
    case (Some y)
    have c: "is_range_limit_error ''query exceeds max block range''" by code_simp
    from Some have "fetch_raw_logs_loop (raw_query always_block_range ''0xpool'' ''0xtopic'')
                      0 0 1000 empty_run = Some y"
      by (simp add: fetch_raw_logs_def)
    from fetch_raw_logs_loop_stuck[OF this] c show ?thesis
      by (simp add: raw_query_def always_block_range_def)
  qed
  show "fetch_event_logs (raw_query always_block_range ''0xpool'' ''0xtopic'') 0 0 1000 =
     Some (None, \<lparr>yielded = [],
                  queried = [(0, 0), (0, 0), (0, 0), (0, 0), (0, 0), (0, 0), (0, 0)],
                  step_values = [500, 250, 125, 50, 10, 1], progress = []\<rparr>)"
    by code_simp
  show "fetch_event_logs_adaptive (raw_query always_block_range ''0xpool'' ''0xtopic'') 0 0 1000 20000 =
     Some \<lparr>yielded = [], queried = [(0, 0), (0, 0), (0, 0), (0, 0), (0, 0)],
           step_values = [500, 250, 125, 62], progress = []\<rparr>"
    by code_simp
qed

section \<open>The block at a timestamp\<close>

lemma block_at_timestamp_loop_bounds:
  assumes "lo \<le> hi"
  shows "lo \<le> block_at_timestamp_loop get_ts ts lo hi \<and>
         block_at_timestamp_loop get_ts ts lo hi \<le> hi \<and>
         (block_at_timestamp_loop get_ts ts lo hi < hi \<longrightarrow>
            ts \<le> get_ts (block_at_timestamp_loop get_ts ts lo hi)) \<and>
         (lo < block_at_timestamp_loop get_ts ts lo hi \<longrightarrow>
            get_ts (block_at_timestamp_loop get_ts ts lo hi - 1) < ts)"
  using assms
proof (induction get_ts ts lo hi rule: block_at_timestamp_loop.induct)
  case (1 get_ts ts lo hi)
  show ?case
  proof (cases "lo < hi")
    case False
    then have "block_at_timestamp_loop get_ts ts lo hi = lo"
      by (subst block_at_timestamp_loop.simps) simp
    then show ?thesis using 1(3) False by simp
  next
    case True
    define mid where "mid = (lo + hi) div 2"
    have m: "lo \<le> mid" "mid < hi" using True by (auto simp: mid_def)
    show ?thesis
    proof (cases "get_ts mid < ts")
      case low: True
      have eq: "block_at_timestamp_loop get_ts ts lo hi = block_at_timestamp_loop get_ts ts (mid + 1) hi"
        using True low by (subst block_at_timestamp_loop.simps) (simp add: mid_def Let_def)
      have "mid + 1 \<le> hi" using m by simp
      from 1(1)[OF True mid_def low this] m low show ?thesis
        unfolding eq by (cases "block_at_timestamp_loop get_ts ts (mid + 1) hi = mid + 1") auto
    next
      case high: False
      have eq: "block_at_timestamp_loop get_ts ts lo hi = block_at_timestamp_loop get_ts ts lo mid"
        using True high by (subst block_at_timestamp_loop.simps) (simp add: mid_def Let_def)
      from 1(2)[OF True mid_def high m(1)] m high show ?thesis
        unfolding eq by (cases "block_at_timestamp_loop get_ts ts lo mid = mid") auto
    qed
  qed
qed

lemma block_at_timestamp_loop_first:
  assumes mono: "\<forall>a b. lo \<le> a \<and> a \<le> b \<and> b \<le> hi \<longrightarrow> get_ts a \<le> get_ts b"
    and le: "lo \<le> hi"
  shows "lo \<le> block_at_timestamp_loop get_ts ts lo hi \<and>
         block_at_timestamp_loop get_ts ts lo hi \<le> hi \<and>
         (\<forall>b. lo \<le> b \<and> b < block_at_timestamp_loop get_ts ts lo hi \<longrightarrow> get_ts b < ts) \<and>
         ((\<exists>b. lo \<le> b \<and> b \<le> hi \<and> ts \<le> get_ts b) \<longrightarrow>
            ts \<le> get_ts (block_at_timestamp_loop get_ts ts lo hi)) \<and>
         (ts \<le> get_ts lo \<longrightarrow> block_at_timestamp_loop get_ts ts lo hi = lo) \<and>
         (get_ts hi < ts \<longrightarrow> block_at_timestamp_loop get_ts ts lo hi = hi)"
proof -
  define r where "r = block_at_timestamp_loop get_ts ts lo hi"
  from block_at_timestamp_loop_bounds[OF le, of get_ts ts]
  have b: "lo \<le> r" "r \<le> hi" "r < hi \<longrightarrow> ts \<le> get_ts r" "lo < r \<longrightarrow> get_ts (r - 1) < ts"
    by (simp_all add: r_def)
  have before: "\<forall>b. lo \<le> b \<and> b < r \<longrightarrow> get_ts b < ts"
  proof (intro allI impI)
    fix c assume c: "lo \<le> c \<and> c < r"
    then have "get_ts c \<le> get_ts (r - 1)" using mono b(2) by auto
    moreover have "get_ts (r - 1) < ts" using b(4) c by auto
    ultimately show "get_ts c < ts" by simp
  qed
  have found: "(\<exists>b. lo \<le> b \<and> b \<le> hi \<and> ts \<le> get_ts b) \<longrightarrow> ts \<le> get_ts r"
  proof
    assume "\<exists>b. lo \<le> b \<and> b \<le> hi \<and> ts \<le> get_ts b"
    then obtain c where c: "lo \<le> c" "c \<le> hi" "ts \<le> get_ts c" by blast
    show "ts \<le> get_ts r"
    proof (cases "r < hi")
      case True with b(3) show ?thesis by simp
    next
      case False
      with b(2) have "r = hi" by simp
      moreover have "get_ts c \<le> get_ts hi" using mono c by auto
      ultimately show ?thesis using c(3) by simp
    qed
  qed
  have below: "ts \<le> get_ts lo \<longrightarrow> r = lo"
    using before b(1) by (cases "r = lo") auto
  have above: "get_ts hi < ts \<longrightarrow> r = hi"
  proof
    assume h: "get_ts hi < ts"
    show "r = hi"
    proof (rule ccontr)
      assume "r \<noteq> hi"
      with b(2) have lt: "r < hi" by simp
      with b(3) have "ts \<le> get_ts r" by simp
      moreover have "get_ts r \<le> get_ts hi" using mono b(1) lt by auto
      ultimately show False using h by simp
    qed
  qed
  from b(1,2) before found below above show ?thesis unfolding r_def by blast
qed

text \<open>
  C4. When the timestamps do not decrease over \<open>[lo, hi]\<close> and \<open>lo \<le> hi\<close>,
  \<open>block_at_timestamp\<close> returns a block \<open>r\<close> of the range before which every block of the
  range has a timestamp below the target, and whose own timestamp is at least the target as
  soon as some block of the range has one: the first such block. For a target at or below
  the timestamp of \<open>lo\<close> it returns \<open>lo\<close>, for a target above the timestamp of \<open>hi\<close> it
  returns \<open>hi\<close>. The function of analysis\_curve\_pool.py returns the same block, with \<open>hi\<close>
  given as \<open>end\<close> or as the head of the chain.
\<close>

theorem block_at_timestamp_first_block:
  assumes "\<forall>a b. lo \<le> a \<and> a \<le> b \<and> b \<le> hi \<longrightarrow> get_ts a \<le> get_ts b"
    and "lo \<le> hi"
  shows "lo \<le> block_at_timestamp hi get_ts ts lo \<and>
         block_at_timestamp hi get_ts ts lo \<le> hi \<and>
         (\<forall>b. lo \<le> b \<and> b < block_at_timestamp hi get_ts ts lo \<longrightarrow> get_ts b < ts) \<and>
         ((\<exists>b. lo \<le> b \<and> b \<le> hi \<and> ts \<le> get_ts b) \<longrightarrow>
            ts \<le> get_ts (block_at_timestamp hi get_ts ts lo)) \<and>
         (ts \<le> get_ts lo \<longrightarrow> block_at_timestamp hi get_ts ts lo = lo) \<and>
         (get_ts hi < ts \<longrightarrow> block_at_timestamp hi get_ts ts lo = hi) \<and>
         acp_block_at_timestamp head get_ts ts lo (Some hi) = block_at_timestamp hi get_ts ts lo \<and>
         acp_block_at_timestamp hi get_ts ts lo None = block_at_timestamp hi get_ts ts lo"
  using block_at_timestamp_loop_first[OF assms, of ts]
  by (simp add: block_at_timestamp_def acp_block_at_timestamp_def)

theorem block_at_timestamp_first_block_witness:
  "block_at_timestamp 1000 (\<lambda>b. 12 * b) 1234 0 = 103 \<and>
   acp_block_at_timestamp 1000 (\<lambda>b. 12 * b) 1234 0 None = 103 \<and>
   block_at_timestamp 1000 (\<lambda>b. 12 * b) (-5) 0 = 0 \<and>
   block_at_timestamp 1000 (\<lambda>b. 12 * b) 99999 0 = 1000"
proof -
  have mono: "\<forall>a b. (0::int) \<le> a \<and> a \<le> b \<and> b \<le> 1000 \<longrightarrow> 12 * a \<le> 12 * b" by simp
  have le: "(0::int) \<le> 1000" by simp
  define r where "r = block_at_timestamp 1000 (\<lambda>b. 12 * b) 1234 0"
  note th = block_at_timestamp_first_block[OF mono le, of 1234 1000, folded r_def]
  have before: "\<forall>b. 0 \<le> b \<and> b < r \<longrightarrow> 12 * b < 1234" using th by blast
  have ex: "\<exists>b::int. 0 \<le> b \<and> b \<le> 1000 \<and> 1234 \<le> 12 * b" by (rule exI[of _ 1000]) simp
  have found: "1234 \<le> 12 * r" using th ex by blast
  have acp: "acp_block_at_timestamp 1000 (\<lambda>b. 12 * b) 1234 0 None = r" using th by blast
  have "\<not> 103 < r"
  proof
    assume "103 < r"
    with before have "12 * (103::int) < 1234" by (metis zero_le_numeral)
    then show False by simp
  qed
  moreover have "103 \<le> r" using found by simp
  ultimately have r: "r = 103" by simp
  have "(-5::int) \<le> 12 * 0" by simp
  with block_at_timestamp_first_block[OF mono le, of "-5" 1000]
  have lo: "block_at_timestamp 1000 (\<lambda>b. 12 * b) (-5) 0 = 0" by blast
  have "12 * (1000::int) < 99999" by simp
  with block_at_timestamp_first_block[OF mono le, of 99999 1000]
  have hi: "block_at_timestamp 1000 (\<lambda>b. 12 * b) 99999 0 = 1000" by blast
  from r acp lo hi show ?thesis unfolding r_def by simp
qed


section \<open>Coverage when the node never fails\<close>

text \<open>
  C3. Let the node answer every query of a window \<open>[a, b]\<close> with \<open>g a b\<close>, never failing,
  where the answer for a range is the answer for its first part followed by the answer for
  the rest. Then a call of \<open>fetch_event_logs_adaptive\<close> or of \<open>fetch_token_exchange_raw\<close>
  over \<open>[from_block, to_block]\<close> with \<open>step \<ge> 1\<close>, \<open>from_block \<le> to_block\<close> and no
  more sub-windows than \<open>max_pages\<close> returns; it has queried exactly the sub-windows, in
  order; what it yields is the concatenation of their answers, which is the answer
  \<open>g from_block to_block\<close> for the whole range; and the last value given to
  \<open>progress_cb\<close> is 1.
\<close>

theorem coverage_without_errors:
  assumes "\<forall>n a b. event n a b = Logs (g a b)"
    and "\<forall>n a b. get_logs n \<lparr>fromBlock = a, toBlock = b, address = addr,
            topics = [TOPIC_TOKEN_EX keccak_hex]\<rparr> = Logs (g a b)"
    and "\<forall>a b c. a \<le> b \<and> b < c \<longrightarrow> g a c = g a b @ g (b + 1) c"
    and "1 \<le> step"
    and "from_block \<le> to_block"
    and "int (length (sub_windows from_block to_block step)) \<le> max_pages"
  shows "(\<exists>r. fetch_event_logs_adaptive event from_block to_block step max_pages = Some r \<and>
            queried r = sub_windows from_block to_block step \<and>
            yielded r = concat (map (\<lambda>(a, b). g a b) (sub_windows from_block to_block step)) \<and>
            yielded r = g from_block to_block \<and>
            progress r \<noteq> [] \<and> last (progress r) = 1) \<and>
         (\<exists>r. fetch_token_exchange_raw keccak_hex get_logs addr from_block to_block step max_pages
               = Some r \<and>
            queried r = sub_windows from_block to_block step \<and>
            yielded r = concat (map (\<lambda>(a, b). g a b) (sub_windows from_block to_block step)) \<and>
            yielded r = g from_block to_block \<and>
            progress r \<noteq> [] \<and> last (progress r) = 1)"
proof
  have pg: "int 0 + int (length (sub_windows from_block to_block step)) \<le> max_pages"
    using assms(6) by simp
  from adaptive_loop_no_errors[OF assms(1) assms(3) assms(4) assms(5) refl assms(5) pg, of empty_run]
  show "\<exists>r. fetch_event_logs_adaptive event from_block to_block step max_pages = Some r \<and>
            queried r = sub_windows from_block to_block step \<and>
            yielded r = concat (map (\<lambda>(a, b). g a b) (sub_windows from_block to_block step)) \<and>
            yielded r = g from_block to_block \<and>
            progress r \<noteq> [] \<and> last (progress r) = 1"
    by (auto simp: fetch_event_logs_adaptive_def empty_run_def)
  have q: "\<forall>n a b. raw_query get_logs addr (TOPIC_TOKEN_EX keccak_hex) n a b = Logs (g a b)"
    using assms(2) by (simp add: raw_query_def)
  from adaptive_loop_no_errors[OF q assms(3) assms(4) assms(5) refl assms(5) pg, of empty_run]
  show "\<exists>r. fetch_token_exchange_raw keccak_hex get_logs addr from_block to_block step max_pages
               = Some r \<and>
            queried r = sub_windows from_block to_block step \<and>
            yielded r = concat (map (\<lambda>(a, b). g a b) (sub_windows from_block to_block step)) \<and>
            yielded r = g from_block to_block \<and>
            progress r \<noteq> [] \<and> last (progress r) = 1"
    by (auto simp: fetch_token_exchange_raw_def empty_run_def)
qed

lemma sub_windows_0_10_4: "sub_windows 0 10 4 = [(0, 3), (4, 7), (8, 10)]"
  by (simp add: sub_windows.simps)

theorem coverage_without_errors_witness:
  "(\<exists>r. fetch_event_logs_adaptive block_numbers 0 10 4 20000 = Some r \<and>
        queried r = [(0, 3), (4, 7), (8, 10)] \<and>
        yielded r = [0..10] \<and> progress r \<noteq> [] \<and> last (progress r) = 1) \<and>
   (\<exists>r. fetch_token_exchange_raw (\<lambda>s. ''00'') block_numbers_raw ''0xpool'' 0 10 4 20000 = Some r \<and>
        queried r = [(0, 3), (4, 7), (8, 10)] \<and>
        yielded r = [0..10] \<and> progress r \<noteq> [] \<and> last (progress r) = 1)"
proof -
  have h1: "\<forall>n a b. block_numbers n a b = Logs [a..b]"
    by (simp add: block_numbers_def)
  have h2: "\<forall>n a b. block_numbers_raw n \<lparr>fromBlock = a, toBlock = b, address = ''0xpool'',
            topics = [TOPIC_TOKEN_EX (\<lambda>s. ''00'')]\<rparr> = Logs [a..b]"
    by (simp add: block_numbers_raw_def)
  have h3: "\<forall>a b c :: int. a \<le> b \<and> b < c \<longrightarrow> [a..c] = [a..b] @ [b + 1..c]"
    by (simp add: upto_split2)
  have h4: "(1::int) \<le> 4" and h5: "(0::int) \<le> 10" by simp_all
  have h6: "int (length (sub_windows 0 10 4)) \<le> 20000"
    by (simp add: sub_windows_0_10_4)
  from coverage_without_errors[OF h1 h2 h3 h4 h5 h6]
  show ?thesis unfolding sub_windows_0_10_4 by blast
qed

section \<open>Which exceptions shrink the window\<close>







section \<open>Exchanges with unexpected indices\<close>

lemma getitem_two:
  "k \<in> {0, 1} \<Longrightarrow> getitem [0 \<mapsto> x, 1 \<mapsto> y] k = Inr (if k = 0 then x else y)"
  by (auto simp: getitem_def)

lemma swap_of_exchange_skips:
  assumes "sold_id \<in> {0, 1}" "bought_id \<in> {0, 1}"
    and "(sold_id, bought_id) \<noteq> (0, 1)" "(sold_id, bought_id) \<noteq> (1, 0)"
  shows "swap_of_exchange meta ts blk tx sold_id sold bought_id bought = Inr None"
proof -
  from assms have "\<not> (sold_id = 0 \<and> bought_id = 1)" "\<not> (sold_id = 1 \<and> bought_id = 0)"
    by simp_all
  then show ?thesis
    unfolding swap_of_exchange_def Let_def getitem_two[OF assms(1)] getitem_two[OF assms(2)]
    by simp
qed

lemma handle_swap_skips:
  assumes "a_sold_id (ev_args evlog) \<in> {0, 1}" "a_bought_id (ev_args evlog) \<in> {0, 1}"
    and "(a_sold_id (ev_args evlog), a_bought_id (ev_args evlog)) \<noteq> (deusd_index meta, frx_index meta)"
    and "(a_sold_id (ev_args evlog), a_bought_id (ev_args evlog)) \<noteq> (frx_index meta, deusd_index meta)"
  shows "handle_swap meta get_ts evlog swaps = Inr swaps"
proof -
  from assms(3,4) have
    "\<not> (a_sold_id (ev_args evlog) = deusd_index meta \<and> a_bought_id (ev_args evlog) = frx_index meta)"
    "\<not> (a_sold_id (ev_args evlog) = frx_index meta \<and> a_bought_id (ev_args evlog) = deusd_index meta)"
    by simp_all
  then show ?thesis
    unfolding handle_swap_def Let_def getitem_two[OF assms(1)] getitem_two[OF assms(2)]
    by simp
qed

text \<open>
  C10. The claim fails where an index is neither 0 nor 1: the amounts are normalised before
  the indices are tested, and the lookup of the decimals raises \<open>KeyError\<close>. For an exchange
  of coin 2 for coin 0, \<open>handle_swap\<close> and the body of the raw pass raise; the structured
  pass ends there, its exception swallowed. (With both indices in \<open>{0, 1}\<close> the entry is
  skipped as the claim says, see \<open>swap_of_exchange_skips\<close> and \<open>handle_swap_skips\<close>.)
\<close>

theorem unexpected_index_raises:
  "handle_swap meta0 (\<lambda>b. 12 * b) ev_three_coins [] = Inl KeyError \<and>
   abi_swap meta0 (\<lambda>b. 12 * b) ev_three_coins = Inl KeyError \<and>
   abi_pass meta0 (\<lambda>b. 12 * b) (\<lambda>n. False) [ev_three_coins, ev_three_coins] [] = [] \<and>
   raw_swap lib0 meta0 (\<lambda>b. 12 * b) lg_three_coins = Inl KeyError \<and>
   raw_pass lib0 meta0 (\<lambda>b. 12 * b) [lg_three_coins] [] = Inl KeyError"
  by code_simp

section \<open>The two shapes of a raw entry\<close>

text \<open>
  C5, as the code has it. An entry with exactly one topic has the five parameters, the buyer
  among them, decoded from its payload. An entry with any other number of topics, two
  included, has the four parameters that are not indexed decoded from its payload; no topic
  is read and no buyer is bound. Two entries of the same block and transaction, one of each
  shape, whose payloads decode to the same four values, give the same swap record (or are
  both skipped, or raise the same exception).
\<close>

theorem raw_decode_by_topic_count:
  assumes "length tps1 = 1" and "length tps2 \<noteq> 1"
    and "abi_decode l [''address'', ''int128'', ''uint256'', ''int128'', ''uint256''] data1 =
           Some [AbiAddress b, AbiInt si, AbiInt ts, AbiInt bi, AbiInt tb]"
    and "abi_decode l [''int128'', ''uint256'', ''int128'', ''uint256''] data2 =
           Some [AbiInt si, AbiInt ts, AbiInt bi, AbiInt tb]"
  shows "decode_token_exchange l tps1 data1 = Inr (Some b, si, ts, bi, tb) \<and>
         decode_token_exchange l tps2 data2 = Inr (None, si, ts, bi, tb) \<and>
         (lg_topics lg1 = tps1 \<and> lg_data lg1 = DataBytes data1 \<and>
          lg_topics lg2 = tps2 \<and> lg_data lg2 = DataBytes data2 \<and>
          lg_blockNumber lg1 = lg_blockNumber lg2 \<and>
          lg_transactionHash lg1 = lg_transactionHash lg2 \<longrightarrow>
            raw_swap l meta get_ts lg1 = raw_swap l meta get_ts lg2)"
proof -
  have d1: "decode_token_exchange l tps1 data1 = Inr (Some b, si, ts, bi, tb)"
    using assms(1,3) by (simp add: decode_token_exchange_def)
  have d2: "decode_token_exchange l tps2 data2 = Inr (None, si, ts, bi, tb)"
    using assms(2,4) by (simp add: decode_token_exchange_def)
  have "raw_swap l meta get_ts lg1 = raw_swap l meta get_ts lg2"
    if "lg_topics lg1 = tps1 \<and> lg_data lg1 = DataBytes data1 \<and>
        lg_topics lg2 = tps2 \<and> lg_data lg2 = DataBytes data2 \<and>
        lg_blockNumber lg1 = lg_blockNumber lg2 \<and>
        lg_transactionHash lg1 = lg_transactionHash lg2"
    using that d1 d2 by (simp add: raw_swap_def data_bytes_def Let_def)
  with d1 d2 show ?thesis by blast
qed

theorem raw_decode_by_topic_count_witness:
  "decode_token_exchange lib0 (lg_topics lg_one_topic)
      [CHR ''b'', char_of (0::nat), char_of (5::nat), char_of (1::nat), char_of (7::nat)]
     = Inr (Some ''b'', 0, 5, 1, 7) \<and>
   decode_token_exchange lib0 (lg_topics lg_two_topics)
      [char_of (0::nat), char_of (5::nat), char_of (1::nat), char_of (7::nat)]
     = Inr (None, 0, 5, 1, 7) \<and>
   raw_swap lib0 meta0 (\<lambda>b. 12 * b) lg_one_topic = raw_swap lib0 meta0 (\<lambda>b. 12 * b) lg_two_topics"
proof -
  have h1: "length (lg_topics lg_one_topic) = 1" by (simp add: lg_one_topic_def)
  have h2: "length (lg_topics lg_two_topics) \<noteq> 1" by (simp add: lg_two_topics_def)
  have h3: "abi_decode lib0 [''address'', ''int128'', ''uint256'', ''int128'', ''uint256'']
             [CHR ''b'', char_of (0::nat), char_of (5::nat), char_of (1::nat), char_of (7::nat)] =
           Some [AbiAddress ''b'', AbiInt 0, AbiInt 5, AbiInt 1, AbiInt 7]"
    by code_simp
  have h4: "abi_decode lib0 [''int128'', ''uint256'', ''int128'', ''uint256'']
             [char_of (0::nat), char_of (5::nat), char_of (1::nat), char_of (7::nat)] =
           Some [AbiInt 0, AbiInt 5, AbiInt 1, AbiInt 7]"
    by code_simp
  note th = raw_decode_by_topic_count[OF h1 h2 h3 h4, of lg_one_topic lg_two_topics meta0 "\<lambda>b. 12 * b"]
  have same: "lg_topics lg_one_topic = lg_topics lg_one_topic \<and>
      lg_data lg_one_topic =
        DataBytes [CHR ''b'', char_of (0::nat), char_of (5::nat), char_of (1::nat), char_of (7::nat)] \<and>
      lg_topics lg_two_topics = lg_topics lg_two_topics \<and>
      lg_data lg_two_topics =
        DataBytes [char_of (0::nat), char_of (5::nat), char_of (1::nat), char_of (7::nat)] \<and>
      lg_blockNumber lg_one_topic = lg_blockNumber lg_two_topics \<and>
      lg_transactionHash lg_one_topic = lg_transactionHash lg_two_topics"
    by (simp add: lg_one_topic_def lg_two_topics_def)
  from th same show ?thesis by blast
qed

text \<open>
  The claim as it stands fails on an entry with two topics: nothing is read from
  \<open>topics[1]\<close>. The entry below carries the buyer \<open>b\<close> there; its decoding binds no buyer,
  and is the same with another second topic, or with a third one.
\<close>

theorem raw_decode_counterexample:
  "lg_topics lg_two_topics = [''0xd013ca23'', ''b''] \<and>
   decode_token_exchange lib0 [''0xd013ca23'', ''b'']
      [char_of (0::nat), char_of (5::nat), char_of (1::nat), char_of (7::nat)]
     = Inr (None, 0, 5, 1, 7) \<and>
   decode_token_exchange lib0 [''0xd013ca23'', ''c'']
      [char_of (0::nat), char_of (5::nat), char_of (1::nat), char_of (7::nat)]
     = Inr (None, 0, 5, 1, 7) \<and>
   decode_token_exchange lib0 [''0xd013ca23'', ''b'', ''c'']
      [char_of (0::nat), char_of (5::nat), char_of (1::nat), char_of (7::nat)]
     = Inr (None, 0, 5, 1, 7)"
  by code_simp

section \<open>The structured pass and its fallback\<close>

lemma attempt_window_queried:
  assumes "1 \<le> step" "start \<le> to_block" "start \<le> end_b" "end_b \<le> to_block"
  shows "\<exists>ws. queried (snd (snd (snd
             (attempt_window q from_block total_blocks to_block start end_b step retries pages r))))
             = queried r @ ws \<and>
           (\<forall>w\<in>set ws. fst w = start \<and> start \<le> snd w \<and> snd w \<le> to_block)"
  using assms
proof (induction q from_block total_blocks to_block start end_b step retries pages r
        rule: attempt_window.induct)
  case (1 q from_block total_blocks to_block start end_b step retries pages r)
  define r1 where "r1 = r\<lparr>queried := queried r @ [(start, end_b)]\<rparr>"
  note unfold = attempt_window.simps[of q from_block total_blocks to_block start end_b step retries pages r]
  have one: "queried r1 = queried r @ [(start, end_b)]" by (simp add: r1_def)
  have ok1: "\<forall>w\<in>set [(start, end_b)]. fst w = start \<and> start \<le> snd w \<and> snd w \<le> to_block"
    using 1(5,6) by simp
  show ?case
  proof (cases "q (length (queried r)) start end_b")
    case (Logs ls)
    have "queried (snd (snd (snd
             (attempt_window q from_block total_blocks to_block start end_b step retries pages r))))
          = queried r @ [(start, end_b)]"
      unfolding unfold using Logs by (simp add: Let_def)
    with ok1 show ?thesis by blast
  next
    case (Raises e)
    show ?thesis
    proof (cases "is_range_or_limit_error e")
      case cap: True
      show ?thesis
      proof (cases "retries + 1 \<ge> 5")
        case True
        have "queried (snd (snd (snd
             (attempt_window q from_block total_blocks to_block start end_b step retries pages r))))
          = queried r @ [(start, end_b)]"
          unfolding unfold using Raises cap True by (simp add: Let_def)
        with ok1 show ?thesis by blast
      next
        case False
        define step' where "step' = max 1 (step div 2)"
        define end' where "end' = min (start + step' - 1) to_block"
        define r2 where "r2 = r1\<lparr>step_values := step_values r1 @ [step']\<rparr>"
        have s': "1 \<le> step'" using 1(3) by (simp add: step'_def)
        have e': "start \<le> end'" "end' \<le> to_block" using s' 1(4) by (auto simp: end'_def)
        have eq: "attempt_window q from_block total_blocks to_block start end_b step retries pages r =
              attempt_window q from_block total_blocks to_block start end' step' (retries + 1) pages r2"
          unfolding unfold using Raises cap False
          by (simp add: Let_def r1_def r2_def step'_def end'_def)
        from 1(1)[OF r1_def Raises cap False, folded step'_def, folded end'_def, folded r2_def,
                  OF s' 1(4) e']
        obtain ws where ws: "queried (snd (snd (snd
             (attempt_window q from_block total_blocks to_block start end' step' (retries + 1) pages r2))))
             = queried r2 @ ws"
          "\<forall>w\<in>set ws. fst w = start \<and> start \<le> snd w \<and> snd w \<le> to_block"
          by blast
        have "queried r2 = queried r @ [(start, end_b)]" by (simp add: r2_def r1_def)
        with ws(1) have "queried (snd (snd (snd
             (attempt_window q from_block total_blocks to_block start end_b step retries pages r))))
             = queried r @ ((start, end_b) # ws)"
          unfolding eq by simp
        moreover have "\<forall>w\<in>set ((start, end_b) # ws). fst w = start \<and> start \<le> snd w \<and> snd w \<le> to_block"
          using ws(2) 1(5,6) by simp
        ultimately show ?thesis by blast
      qed
    next
      case other: False
      show ?thesis
      proof (cases "retries + 1 \<ge> 2")
        case True
        have "queried (snd (snd (snd
             (attempt_window q from_block total_blocks to_block start end_b step retries pages r))))
          = queried r @ [(start, end_b)]"
          unfolding unfold using Raises other True by (simp add: Let_def)
        with ok1 show ?thesis by blast
      next
        case False
        have eq: "attempt_window q from_block total_blocks to_block start end_b step retries pages r =
              attempt_window q from_block total_blocks to_block start end_b step (retries + 1) pages r1"
          unfolding unfold using Raises other False by (simp add: Let_def r1_def)
        from 1(2)[OF r1_def Raises other False 1(3) 1(4) 1(5) 1(6)]
        obtain ws where ws: "queried (snd (snd (snd
             (attempt_window q from_block total_blocks to_block start end_b step (retries + 1) pages r1))))
             = queried r1 @ ws"
          "\<forall>w\<in>set ws. fst w = start \<and> start \<le> snd w \<and> snd w \<le> to_block"
          by blast
        from ws(1) one have "queried (snd (snd (snd
             (attempt_window q from_block total_blocks to_block start end_b step retries pages r))))
             = queried r @ ((start, end_b) # ws)"
          unfolding eq by simp
        moreover have "\<forall>w\<in>set ((start, end_b) # ws). fst w = start \<and> start \<le> snd w \<and> snd w \<le> to_block"
          using ws(2) 1(5,6) by simp
        ultimately show ?thesis by blast
      qed
    qed
  qed
qed

lemma adaptive_loop_queried:
  assumes "1 \<le> step" "lo \<le> start"
  shows "\<exists>r' ws. adaptive_loop q from_block total_blocks to_block max_pages start step pages r = Some r' \<and>
           queried r' = queried r @ ws \<and>
           (\<forall>w\<in>set ws. lo \<le> fst w \<and> fst w \<le> snd w \<and> snd w \<le> to_block)"
  using assms
proof (induction "nat (to_block - start + 1)" arbitrary: start step pages r rule: less_induct)
  case less
  show ?case
  proof (cases "start \<le> to_block")
    case False
    then have "adaptive_loop q from_block total_blocks to_block max_pages start step pages r = Some r"
      by (subst adaptive_loop.simps) simp
    then show ?thesis by simp
  next
    case True
    define end_b where "end_b = min (start + step - 1) to_block"
    have e: "start \<le> end_b" "end_b \<le> to_block" using True less.prems by (simp_all add: end_b_def)
    from attempt_window_post[where q = q and from_block = from_block and total_blocks = total_blocks
        and retries = 0 and pages = pages and r = r, OF less.prems(1) True e(1)]
    obtain start' step' pages' r' where
      aw: "attempt_window q from_block total_blocks to_block start end_b step 0 pages r =
             (start', step', pages', r')"
      and post: "start < start'" "1 \<le> step'"
      by blast
    from attempt_window_queried[where q = q and from_block = from_block and total_blocks = total_blocks
        and retries = 0 and pages = pages and r = r, OF less.prems(1) True e] aw
    obtain ws where ws: "queried r' = queried r @ ws"
      "\<forall>w\<in>set ws. fst w = start \<and> start \<le> snd w \<and> snd w \<le> to_block"
      by auto
    have ws': "\<forall>w\<in>set ws. lo \<le> fst w \<and> fst w \<le> snd w \<and> snd w \<le> to_block"
      using ws(2) less.prems(2) by simp
    show ?thesis
    proof (cases "int pages' \<ge> max_pages")
      case stop: True
      have "adaptive_loop q from_block total_blocks to_block max_pages start step pages r = Some r'"
        using True aw stop by (subst adaptive_loop.simps) (simp add: end_b_def)
      with ws(1) ws' show ?thesis by blast
    next
      case go: False
      have eq: "adaptive_loop q from_block total_blocks to_block max_pages start step pages r =
                adaptive_loop q from_block total_blocks to_block max_pages start' step' pages' r'"
        using True aw go by (subst adaptive_loop.simps) (simp add: end_b_def)
      have m: "nat (to_block - start' + 1) < nat (to_block - start + 1)"
        using post(1) True by linarith
      have lo': "lo \<le> start'" using post(1) less.prems(2) by simp
      from less.hyps[OF m post(2) lo', of pages' r']
      obtain r'' ws2 where res:
        "adaptive_loop q from_block total_blocks to_block max_pages start' step' pages' r' = Some r''"
        "queried r'' = queried r' @ ws2"
        "\<forall>w\<in>set ws2. lo \<le> fst w \<and> fst w \<le> snd w \<and> snd w \<le> to_block"
        by blast
      have "queried r'' = queried r @ (ws @ ws2)" using res(2) ws(1) by simp
      moreover have "\<forall>w\<in>set (ws @ ws2). lo \<le> fst w \<and> fst w \<le> snd w \<and> snd w \<le> to_block"
        using ws' res(3) by auto
      ultimately show ?thesis unfolding eq using res(1) by blast
    qed
  qed
qed

lemma attempt_window_agree:
  assumes "\<forall>n b. start \<le> b \<and> b \<le> to_block \<longrightarrow> q' n start b = q n start b"
    and "1 \<le> step" "start \<le> to_block" "start \<le> end_b" "end_b \<le> to_block"
  shows "attempt_window q' from_block total_blocks to_block start end_b step retries pages r =
         attempt_window q from_block total_blocks to_block start end_b step retries pages r"
  using assms
proof (induction q from_block total_blocks to_block start end_b step retries pages r
        rule: attempt_window.induct)
  case (1 q from_block total_blocks to_block start end_b step retries pages r)
  define r1 where "r1 = r\<lparr>queried := queried r @ [(start, end_b)]\<rparr>"
  note u = attempt_window.simps[of q from_block total_blocks to_block start end_b step retries pages r]
  note u' = attempt_window.simps[of q' from_block total_blocks to_block start end_b step retries pages r]
  have qq: "q' (length (queried r)) start end_b = q (length (queried r)) start end_b"
    using 1(3,6,7) by blast
  show ?case
  proof (cases "q (length (queried r)) start end_b")
    case (Logs ls)
    then show ?thesis unfolding u u' using qq by (simp add: Let_def)
  next
    case (Raises e)
    show ?thesis
    proof (cases "is_range_or_limit_error e")
      case cap: True
      show ?thesis
      proof (cases "retries + 1 \<ge> 5")
        case True
        then show ?thesis unfolding u u' using qq Raises cap by (simp add: Let_def)
      next
        case False
        define step' where "step' = max 1 (step div 2)"
        define end' where "end' = min (start + step' - 1) to_block"
        define r2 where "r2 = r1\<lparr>step_values := step_values r1 @ [step']\<rparr>"
        have s': "1 \<le> step'" using 1(4) by (simp add: step'_def)
        have e': "start \<le> end'" "end' \<le> to_block" using s' 1(5) by (auto simp: end'_def)
        have a: "attempt_window q from_block total_blocks to_block start end_b step retries pages r =
              attempt_window q from_block total_blocks to_block start end' step' (retries + 1) pages r2"
          unfolding u using Raises cap False
          by (simp add: Let_def r1_def r2_def step'_def end'_def)
        have a': "attempt_window q' from_block total_blocks to_block start end_b step retries pages r =
              attempt_window q' from_block total_blocks to_block start end' step' (retries + 1) pages r2"
          unfolding u' using Raises cap False qq
          by (simp add: Let_def r1_def r2_def step'_def end'_def)
        from 1(1)[OF r1_def Raises cap False, folded step'_def, folded end'_def, folded r2_def,
                  OF 1(3) s' 1(5) e']
        show ?thesis unfolding a a' .
      qed
    next
      case other: False
      show ?thesis
      proof (cases "retries + 1 \<ge> 2")
        case True
        then show ?thesis unfolding u u' using qq Raises other by (simp add: Let_def)
      next
        case False
        have a: "attempt_window q from_block total_blocks to_block start end_b step retries pages r =
              attempt_window q from_block total_blocks to_block start end_b step (retries + 1) pages r1"
          unfolding u using Raises other False by (simp add: Let_def r1_def)
        have a': "attempt_window q' from_block total_blocks to_block start end_b step retries pages r =
              attempt_window q' from_block total_blocks to_block start end_b step (retries + 1) pages r1"
          unfolding u' using Raises other False qq by (simp add: Let_def r1_def)
        from 1(2)[OF r1_def Raises other False 1(3) 1(4) 1(5) 1(6) 1(7)]
        show ?thesis unfolding a a' .
      qed
    qed
  qed
qed

lemma adaptive_loop_agree:
  assumes "\<forall>n a b. lo \<le> a \<and> a \<le> b \<and> b \<le> to_block \<longrightarrow> q' n a b = q n a b"
    and "1 \<le> step" "lo \<le> start"
  shows "adaptive_loop q' from_block total_blocks to_block max_pages start step pages r =
         adaptive_loop q from_block total_blocks to_block max_pages start step pages r"
  using assms(2,3)
proof (induction "nat (to_block - start + 1)" arbitrary: start step pages r rule: less_induct)
  case less
  show ?case
  proof (cases "start \<le> to_block")
    case False
    then show ?thesis
      by (subst adaptive_loop.simps, subst (2) adaptive_loop.simps) simp
  next
    case True
    define end_b where "end_b = min (start + step - 1) to_block"
    have e: "start \<le> end_b" "end_b \<le> to_block" using True less.prems by (simp_all add: end_b_def)
    have ag: "\<forall>n b. start \<le> b \<and> b \<le> to_block \<longrightarrow> q' n start b = q n start b"
      using assms(1) less.prems(2) by simp
    have same: "attempt_window q' from_block total_blocks to_block start end_b step 0 pages r =
                attempt_window q from_block total_blocks to_block start end_b step 0 pages r"
      by (rule attempt_window_agree[where q = q and q' = q' and start = start
            and to_block = to_block, OF ag less.prems(1) True e])
    from attempt_window_post[where q = q and from_block = from_block and total_blocks = total_blocks
        and retries = 0 and pages = pages and r = r, OF less.prems(1) True e(1)]
    obtain start' step' pages' r' where
      aw: "attempt_window q from_block total_blocks to_block start end_b step 0 pages r =
             (start', step', pages', r')"
      and post: "start < start'" "1 \<le> step'"
      by blast
    show ?thesis
    proof (cases "int pages' \<ge> max_pages")
      case stop: True
      have "adaptive_loop q from_block total_blocks to_block max_pages start step pages r = Some r'"
        using True aw stop by (subst adaptive_loop.simps) (simp add: end_b_def)
      moreover have "adaptive_loop q' from_block total_blocks to_block max_pages start step pages r = Some r'"
        using True aw same stop by (subst adaptive_loop.simps) (simp add: end_b_def)
      ultimately show ?thesis by simp
    next
      case go: False
      have eq: "adaptive_loop q from_block total_blocks to_block max_pages start step pages r =
                adaptive_loop q from_block total_blocks to_block max_pages start' step' pages' r'"
        using True aw go by (subst adaptive_loop.simps) (simp add: end_b_def)
      have eq': "adaptive_loop q' from_block total_blocks to_block max_pages start step pages r =
                adaptive_loop q' from_block total_blocks to_block max_pages start' step' pages' r'"
        using True aw same go by (subst adaptive_loop.simps) (simp add: end_b_def)
      have m: "nat (to_block - start' + 1) < nat (to_block - start + 1)"
        using post(1) True by linarith
      have lo': "lo \<le> start'" using post(1) less.prems(2) by simp
      from less.hyps[OF m post(2) lo', of pages' r'] show ?thesis unfolding eq eq' .
    qed
  qed
qed

lemma swap_of_exchange_record:
  assumes "is_exchange sold_id bought_id"
  shows "swap_of_exchange meta ts blk tx sold_id sold bought_id bought =
           Inr (Some (exchange_record meta ts blk tx sold_id sold bought))"
proof -
  from assms consider "sold_id = 0 \<and> bought_id = 1" | "sold_id = 1 \<and> bought_id = 0"
    unfolding is_exchange_def by blast
  then show ?thesis
  proof cases
    case 1
    then show ?thesis
      by (simp add: swap_of_exchange_def exchange_record_def getitem_def Let_def)
  next
    case 2
    then show ?thesis
      by (simp add: swap_of_exchange_def exchange_record_def getitem_def Let_def)
  qed
qed

lemma abi_swap_record:
  assumes "is_exchange (a_sold_id (ev_args ev)) (a_bought_id (ev_args ev))"
  shows "abi_swap meta get_ts ev =
           Inr (Some (exchange_record meta (get_ts (ev_blockNumber ev)) (ev_blockNumber ev)
                        (ev_transactionHash ev) (a_sold_id (ev_args ev))
                        (a_tokens_sold (ev_args ev)) (a_tokens_bought (ev_args ev))))"
  unfolding abi_swap_def Let_def by (rule swap_of_exchange_record[OF assms])

lemma decode_token_exchange_decoded_as:
  assumes "decoded_as l tps data (sold_id, tokens_sold, bought_id, tokens_bought)"
  shows "\<exists>buyer. decode_token_exchange l tps data =
           Inr (buyer, sold_id, tokens_sold, bought_id, tokens_bought)"
proof (cases "length tps = 1")
  case True
  with assms obtain buyer where
    "abi_decode l [''address'', ''int128'', ''uint256'', ''int128'', ''uint256''] data =
       Some [AbiAddress buyer, AbiInt sold_id, AbiInt tokens_sold, AbiInt bought_id,
             AbiInt tokens_bought]"
    by (auto simp: decoded_as_def)
  with True show ?thesis by (simp add: decode_token_exchange_def)
next
  case False
  with assms have
    "abi_decode l [''int128'', ''uint256'', ''int128'', ''uint256''] data =
       Some [AbiInt sold_id, AbiInt tokens_sold, AbiInt bought_id, AbiInt tokens_bought]"
    by (simp add: decoded_as_def)
  with False show ?thesis by (simp add: decode_token_exchange_def)
qed

lemma raw_swap_record:
  assumes "data_bytes l (lg_data lg) = Inr data"
    and "decoded_as l (lg_topics lg) data (sold_id, tokens_sold, bought_id, tokens_bought)"
    and "is_exchange sold_id bought_id"
  shows "raw_swap l meta get_ts lg =
           Inr (Some (exchange_record meta (get_ts (lg_blockNumber lg)) (lg_blockNumber lg)
                        (lg_transactionHash lg) sold_id tokens_sold tokens_bought))"
proof -
  from decode_token_exchange_decoded_as[OF assms(2)] obtain buyer where
    "decode_token_exchange l (lg_topics lg) data =
       Inr (buyer, sold_id, tokens_sold, bought_id, tokens_bought)" ..
  with assms(1) show ?thesis
    unfolding raw_swap_def Let_def by (simp add: swap_of_exchange_record[OF assms(3)])
qed

lemma abi_pass_map:
  assumes "\<forall>ev\<in>set evs. abi_swap meta get_ts ev = Inr (Some (f ev))"
    and "\<forall>n. \<not> timed_out n"
  shows "abi_pass meta get_ts timed_out evs swaps = swaps @ map f evs"
  using assms(1)
proof (induction evs arbitrary: swaps)
  case Nil
  then show ?case by simp
next
  case (Cons ev evs)
  then have a: "abi_swap meta get_ts ev = Inr (Some (f ev))" by simp
  have b: "abi_pass meta get_ts timed_out evs (swaps @ [f ev]) = (swaps @ [f ev]) @ map f evs"
    using Cons by simp
  have c: "\<not> timed_out (length (swaps @ [f ev]))" using assms(2) by blast
  show ?case by (simp add: a b c del: length_append)
qed

lemma raw_pass_map:
  assumes "\<forall>lg\<in>set lgs. raw_swap l meta get_ts lg = Inr (Some (f lg))"
  shows "raw_pass l meta get_ts lgs swaps = Inr (swaps @ map f lgs)"
  using assms
proof (induction lgs arbitrary: swaps)
  case Nil
  then show ?case by simp
next
  case (Cons lg lgs)
  then have "raw_swap l meta get_ts lg = Inr (Some (f lg))" by simp
  moreover have "raw_pass l meta get_ts lgs (swaps @ [f lg]) = Inr ((swaps @ [f lg]) @ map f lgs)"
    using Cons by simp
  ultimately show ?case by simp
qed

text \<open>
  C6. \<open>analyze_swaps_last_days\<close> first reads the structured events of
  \<open>[start_block, end_block]\<close> to the end, and always comes back from it: on a node that
  never fails they are the events of the whole range, and when each is an exchange between
  the two coins and time does not run out the structured pass appends the record of each, in
  order. When that pass has appended a record, its list is the result and
  \<open>fetch_token_exchange_raw\<close> is not called. When it has appended none, and only then,
  the function reads the raw entries: every window it asks for lies in
  \<open>[start_block, end_block]\<close>; on a node that never fails the entries are those of the whole
  range; and when the payload of each decodes to an exchange between the two coins the
  result is the list of their records, in order. Whatever the node does, the result depends
  on its raw filter only through the answers for the pool, the single topic \<open>0x\<close> followed
  by the hash of the signature of \<open>TokenExchange\<close>, and a window in
  \<open>[start_block, end_block]\<close>.
\<close>

theorem structured_first_raw_fallback:
  assumes "start_block = block_at_timestamp (eth_block_number node) (eth_get_block_timestamp node)
                           (now - days * 86400) 17000000"
    and "end_block = block_at_timestamp (eth_block_number node) (eth_get_block_timestamp node)
                           now 17000000"
    and "topic0 = ''0x'' @ keccak_text_hex l ''TokenExchange(address,int128,uint256,int128,uint256)''"
    and "get_ts = eth_get_block_timestamp node"
  shows "\<exists>ra. fetch_event_logs_adaptive (events_TokenExchange_get_logs node pool_addr)
                 start_block end_block 500 20000 = Some ra \<and>
           ((\<forall>n a b. events_TokenExchange_get_logs node pool_addr n a b = Logs (h a b)) \<and>
            adds_up h \<and> start_block \<le> end_block \<and>
            int (length (sub_windows start_block end_block 500)) \<le> 20000 \<longrightarrow>
              yielded ra = h start_block end_block) \<and>
           ((\<forall>ev\<in>set (yielded ra). is_exchange (a_sold_id (ev_args ev)) (a_bought_id (ev_args ev))) \<and>
            (\<forall>n. \<not> timed_out n) \<longrightarrow>
              abi_pass meta get_ts timed_out (yielded ra) [] =
                map (\<lambda>ev. exchange_record meta (get_ts (ev_blockNumber ev)) (ev_blockNumber ev)
                             (ev_transactionHash ev) (a_sold_id (ev_args ev))
                             (a_tokens_sold (ev_args ev)) (a_tokens_bought (ev_args ev)))
                    (yielded ra)) \<and>
           (abi_pass meta get_ts timed_out (yielded ra) [] \<noteq> [] \<longrightarrow>
              analyze_swaps_last_days l node pool_addr meta days now timed_out =
                Some \<lparr>raw_run = None,
                      swaps_out = Inr (abi_pass meta get_ts timed_out (yielded ra) [])\<rparr>) \<and>
           (\<forall>gl. (\<forall>n a b. start_block \<le> a \<and> a \<le> b \<and> b \<le> end_block \<longrightarrow>
                      gl n \<lparr>fromBlock = a, toBlock = b, address = pool_addr, topics = [topic0]\<rparr> =
                      eth_get_logs node n
                        \<lparr>fromBlock = a, toBlock = b, address = pool_addr, topics = [topic0]\<rparr>) \<longrightarrow>
                 analyze_swaps_last_days l (node\<lparr>eth_get_logs := gl\<rparr>) pool_addr meta days now timed_out =
                 analyze_swaps_last_days l node pool_addr meta days now timed_out) \<and>
           (abi_pass meta get_ts timed_out (yielded ra) [] = [] \<longrightarrow>
              (\<exists>rr. fetch_token_exchange_raw (keccak_text_hex l) (eth_get_logs node) pool_addr
                       start_block end_block 500 20000 = Some rr \<and>
                    analyze_swaps_last_days l node pool_addr meta days now timed_out =
                      Some \<lparr>raw_run = Some rr,
                            swaps_out = raw_pass l meta get_ts (yielded rr) []\<rparr> \<and>
                    (\<forall>w\<in>set (queried rr).
                        start_block \<le> fst w \<and> fst w \<le> snd w \<and> snd w \<le> end_block) \<and>
                    ((\<forall>n a b. eth_get_logs node n
                         \<lparr>fromBlock = a, toBlock = b, address = pool_addr, topics = [topic0]\<rparr> =
                         Logs (g a b)) \<and>
                     adds_up g \<and> start_block \<le> end_block \<and>
                     int (length (sub_windows start_block end_block 500)) \<le> 20000 \<longrightarrow>
                       yielded rr = g start_block end_block) \<and>
                    ((\<forall>lg\<in>set (yielded rr).
                         \<exists>data. data_bytes l (lg_data lg) = Inr data \<and>
                                decoded_as l (lg_topics lg) data (dec lg) \<and>
                                is_exchange (fst (dec lg)) (fst (snd (snd (dec lg))))) \<longrightarrow>
                       raw_pass l meta get_ts (yielded rr) [] =
                         Inr (map (\<lambda>lg. exchange_record meta (get_ts (lg_blockNumber lg))
                                          (lg_blockNumber lg) (lg_transactionHash lg)
                                          (fst (dec lg)) (fst (snd (dec lg)))
                                          (snd (snd (snd (dec lg)))))
                                  (yielded rr)))))"
proof -
  let ?ev = "events_TokenExchange_get_logs node pool_addr"
  let ?tot = "max 1 (end_block - start_block + 1)"
  let ?rq = "\<lambda>gl. raw_query gl pool_addr (TOPIC_TOKEN_EX (keccak_text_hex l))"
  have topic: "TOPIC_TOKEN_EX (keccak_text_hex l) = topic0"
    by (simp add: TOPIC_TOKEN_EX_def TOKEN_EX_SIG_def assms(3))
  have s: "(1::int) \<le> 500" by simp
  from adaptive_loop_returns[where q = ?ev and from_block = start_block and total_blocks = ?tot
      and to_block = end_block and max_pages = 20000 and start = start_block and pages = 0
      and r = empty_run, OF s]
  obtain ra where ra: "fetch_event_logs_adaptive ?ev start_block end_block 500 20000 = Some ra"
    unfolding fetch_event_logs_adaptive_def by blast
  from adaptive_loop_queried[where q = "?rq (eth_get_logs node)"
      and from_block = start_block and total_blocks = ?tot
      and to_block = end_block and max_pages = 20000 and start = start_block and lo = start_block
      and pages = 0 and r = empty_run, OF s order_refl]
  obtain rr where rr: "fetch_token_exchange_raw (keccak_text_hex l) (eth_get_logs node) pool_addr
                       start_block end_block 500 20000 = Some rr"
    and win: "\<forall>w\<in>set (queried rr). start_block \<le> fst w \<and> fst w \<le> snd w \<and> snd w \<le> end_block"
    unfolding fetch_token_exchange_raw_def by (auto simp: empty_run_def)
  have S1: "yielded ra = h start_block end_block"
    if "(\<forall>n a b. ?ev n a b = Logs (h a b)) \<and> adds_up h \<and> start_block \<le> end_block \<and>
        int (length (sub_windows start_block end_block 500)) \<le> 20000"
  proof -
    from that have q: "\<forall>n a b. ?ev n a b = Logs (h a b)"
      and add: "\<forall>a b c. a \<le> b \<and> b < c \<longrightarrow> h a c = h a b @ h (b + 1) c"
      and le: "start_block \<le> end_block"
      and pg: "int 0 + int (length (sub_windows start_block end_block 500)) \<le> 20000"
      by (simp_all add: adds_up_def)
    from adaptive_loop_no_errors[OF q add s le refl le pg, of empty_run] ra
    show ?thesis by (auto simp: fetch_event_logs_adaptive_def empty_run_def)
  qed
  have S2: "abi_pass meta get_ts timed_out (yielded ra) [] =
                map (\<lambda>ev. exchange_record meta (get_ts (ev_blockNumber ev)) (ev_blockNumber ev)
                             (ev_transactionHash ev) (a_sold_id (ev_args ev))
                             (a_tokens_sold (ev_args ev)) (a_tokens_bought (ev_args ev)))
                    (yielded ra)"
    if "(\<forall>ev\<in>set (yielded ra). is_exchange (a_sold_id (ev_args ev)) (a_bought_id (ev_args ev))) \<and>
        (\<forall>n. \<not> timed_out n)"
  proof -
    have "\<forall>ev\<in>set (yielded ra). abi_swap meta get_ts ev =
            Inr (Some (exchange_record meta (get_ts (ev_blockNumber ev)) (ev_blockNumber ev)
                             (ev_transactionHash ev) (a_sold_id (ev_args ev))
                             (a_tokens_sold (ev_args ev)) (a_tokens_bought (ev_args ev))))"
      using that abi_swap_record by blast
    from abi_pass_map[OF this, of timed_out "[]"] that show ?thesis by simp
  qed
  have A: "analyze_swaps_last_days l node pool_addr meta days now timed_out =
             Some \<lparr>raw_run = None, swaps_out = Inr (abi_pass meta get_ts timed_out (yielded ra) [])\<rparr>"
    if "abi_pass meta get_ts timed_out (yielded ra) [] \<noteq> []"
    using that ra unfolding analyze_swaps_last_days_def Let_def by (simp add: assms(1,2,4))
  have B: "analyze_swaps_last_days l node pool_addr meta days now timed_out =
             Some \<lparr>raw_run = Some rr, swaps_out = raw_pass l meta get_ts (yielded rr) []\<rparr>"
    if "abi_pass meta get_ts timed_out (yielded ra) [] = []"
    using that ra rr unfolding analyze_swaps_last_days_def Let_def by (simp add: assms(1,2,4))
  have F: "analyze_swaps_last_days l (node\<lparr>eth_get_logs := gl\<rparr>) pool_addr meta days now timed_out =
           analyze_swaps_last_days l node pool_addr meta days now timed_out"
    if ag: "\<forall>n a b. start_block \<le> a \<and> a \<le> b \<and> b \<le> end_block \<longrightarrow>
              gl n \<lparr>fromBlock = a, toBlock = b, address = pool_addr, topics = [topic0]\<rparr> =
              eth_get_logs node n
                \<lparr>fromBlock = a, toBlock = b, address = pool_addr, topics = [topic0]\<rparr>" for gl
  proof -
    have "\<forall>n a b. start_block \<le> a \<and> a \<le> b \<and> b \<le> end_block \<longrightarrow>
            ?rq gl n a b = ?rq (eth_get_logs node) n a b"
      using ag by (simp add: raw_query_def topic)
    from adaptive_loop_agree[OF this s order_refl]
    have "fetch_token_exchange_raw (keccak_text_hex l) gl pool_addr start_block end_block 500 20000 =
          fetch_token_exchange_raw (keccak_text_hex l) (eth_get_logs node) pool_addr
            start_block end_block 500 20000"
      unfolding fetch_token_exchange_raw_def .
    then show ?thesis
      unfolding analyze_swaps_last_days_def Let_def
      by (simp add: assms(1,2) cong: option.case_cong if_cong)
  qed
  have R1: "yielded rr = g start_block end_block"
    if "(\<forall>n a b. eth_get_logs node n
           \<lparr>fromBlock = a, toBlock = b, address = pool_addr, topics = [topic0]\<rparr> = Logs (g a b)) \<and>
        adds_up g \<and> start_block \<le> end_block \<and>
        int (length (sub_windows start_block end_block 500)) \<le> 20000"
  proof -
    from that have q: "\<forall>n a b. ?rq (eth_get_logs node) n a b = Logs (g a b)"
      and add: "\<forall>a b c. a \<le> b \<and> b < c \<longrightarrow> g a c = g a b @ g (b + 1) c"
      and le: "start_block \<le> end_block"
      and pg: "int 0 + int (length (sub_windows start_block end_block 500)) \<le> 20000"
      by (simp_all add: adds_up_def raw_query_def topic)
    from adaptive_loop_no_errors[OF q add s le refl le pg, of empty_run] rr
    show ?thesis by (auto simp: fetch_token_exchange_raw_def empty_run_def)
  qed
  have R2: "raw_pass l meta get_ts (yielded rr) [] =
              Inr (map (\<lambda>lg. exchange_record meta (get_ts (lg_blockNumber lg))
                               (lg_blockNumber lg) (lg_transactionHash lg)
                               (fst (dec lg)) (fst (snd (dec lg))) (snd (snd (snd (dec lg)))))
                       (yielded rr))"
    if h: "\<forall>lg\<in>set (yielded rr).
             \<exists>data. data_bytes l (lg_data lg) = Inr data \<and>
                    decoded_as l (lg_topics lg) data (dec lg) \<and>
                    is_exchange (fst (dec lg)) (fst (snd (snd (dec lg))))"
  proof -
    have "\<forall>lg\<in>set (yielded rr). raw_swap l meta get_ts lg =
            Inr (Some (exchange_record meta (get_ts (lg_blockNumber lg))
                               (lg_blockNumber lg) (lg_transactionHash lg)
                               (fst (dec lg)) (fst (snd (dec lg))) (snd (snd (snd (dec lg))))))"
    proof
      fix lg assume "lg \<in> set (yielded rr)"
      with h obtain data where d: "data_bytes l (lg_data lg) = Inr data"
        "decoded_as l (lg_topics lg) data (dec lg)"
        "is_exchange (fst (dec lg)) (fst (snd (snd (dec lg))))"
        by blast
      obtain si a bi c where v: "dec lg = (si, a, bi, c)" by (cases "dec lg") auto
      from raw_swap_record[OF d(1) d(2)[unfolded v], of meta get_ts] d(3) v
      show "raw_swap l meta get_ts lg =
            Inr (Some (exchange_record meta (get_ts (lg_blockNumber lg))
                               (lg_blockNumber lg) (lg_transactionHash lg)
                               (fst (dec lg)) (fst (snd (dec lg))) (snd (snd (snd (dec lg))))))"
        by simp
    qed
    from raw_pass_map[OF this, of "[]"] show ?thesis by simp
  qed
  from ra rr win S1 S2 A B F R1 R2 show ?thesis by blast
qed

lemma node0_blocks:
  "block_at_timestamp (eth_block_number node0) (eth_get_block_timestamp node0)
     (204001200 - 7 * 86400) 17000000 = 17000000"
  "block_at_timestamp (eth_block_number node0) (eth_get_block_timestamp node0)
     204001200 17000000 = 17000100"
  by code_simp+

lemma node2_blocks:
  "block_at_timestamp (eth_block_number node2) (eth_get_block_timestamp node2)
     (204001200 - 7 * 86400) 17000000 = 17000000"
  "block_at_timestamp (eth_block_number node2) (eth_get_block_timestamp node2)
     204001200 17000000 = 17000100"
  by code_simp+

lemma one_window: "sub_windows 17000000 17000100 500 = [(17000000, 17000100)]"
  by code_simp

lemma one_block_additive:
  "adds_up (\<lambda>a b. if a \<le> (k::int) \<and> k \<le> b then [x] else [])"
  unfolding adds_up_def by auto

lemma node0_analysis:
  "analyze_swaps_last_days lib0 node0 ''0xpool'' meta0 7 204001200 (\<lambda>n. False) =
     Some \<lparr>raw_run = Some \<lparr>yielded = [lg_two_topics], queried = [(17000000, 17000100)],
                             step_values = [], progress = [1]\<rparr>,
           swaps_out = Inr [\<lparr>time = 204000600, block = 17000050, txhash = ''0xtx'',
                             direction = ''deUSD->frxUSD'',
                             deusd_flow = - (5 / 1000000000000000000),
                             frx_flow = 7 / 1000000000000000000,
                             price_deusd_in_frx = Some (7 / 5),
                             token0_flow = - (5 / 1000000000000000000),
                             token1_flow = 7 / 1000000000000000000,
                             price_token0_in_token1 = Some (7 / 5)\<rparr>]\<rparr>"
  by code_simp

lemma node2_analysis:
  "analyze_swaps_last_days lib0 node2 ''0xpool'' meta0 7 204001200 (\<lambda>n. False) =
     Some \<lparr>raw_run = None,
           swaps_out = Inr [\<lparr>time = 204000600, block = 17000050, txhash = ''0xtx2'',
                             direction = ''frxUSD->deUSD'',
                             deusd_flow = 6 / 1000000000000000000,
                             frx_flow = - (3 / 1000000000000000000),
                             price_deusd_in_frx = Some (1 / 2),
                             token0_flow = 6 / 1000000000000000000,
                             token1_flow = - (3 / 1000000000000000000),
                             price_token0_in_token1 = Some (1 / 2)\<rparr>]\<rparr>"
  by code_simp

theorem structured_first_raw_fallback_witness:
  "(\<exists>rr. analyze_swaps_last_days lib0 node0 ''0xpool'' meta0 7 204001200 (\<lambda>n. False) =
           Some \<lparr>raw_run = Some rr,
                 swaps_out = Inr [exchange_record meta0 204000600 17000050 ''0xtx'' 0 5 7]\<rparr> \<and>
         yielded rr = [lg_two_topics]) \<and>
   analyze_swaps_last_days lib0
       (node0\<lparr>eth_get_logs := (\<lambda>n f. if address f = ''0xpool'' \<and> topics f = [''0xd013ca23'']
                                       then eth_get_logs node0 n f else Raises ''other filter'')\<rparr>)
       ''0xpool'' meta0 7 204001200 (\<lambda>n. False) =
     analyze_swaps_last_days lib0 node0 ''0xpool'' meta0 7 204001200 (\<lambda>n. False) \<and>
   analyze_swaps_last_days lib0 node2 ''0xpool'' meta0 7 204001200 (\<lambda>n. False) =
     Some \<lparr>raw_run = None,
           swaps_out = Inr [exchange_record meta0 204000600 17000050 ''0xtx2'' 1 3 6]\<rparr>"
proof -
  let ?g = "\<lambda>a b. if a \<le> (17000050::int) \<and> 17000050 \<le> b then [lg_two_topics] else []"
  let ?h = "\<lambda>a b. if a \<le> (17000050::int) \<and> 17000050 \<le> b then [ev_swap] else []"
  let ?gl = "\<lambda>n f. if address f = ''0xpool'' \<and> topics f = [''0xd013ca23'']
                    then eth_get_logs node0 n f else Raises ''other filter''"
  have topic: "''0xd013ca23'' =
      ''0x'' @ keccak_text_hex lib0 ''TokenExchange(address,int128,uint256,int128,uint256)''"
    by (simp add: lib0_def)
  have ts0: "(\<lambda>b. 12 * b) = eth_get_block_timestamp node0" by (simp add: node0_def)
  have ts2: "(\<lambda>b. 12 * b) = eth_get_block_timestamp node2" by (simp add: node2_def node0_def)
  have len: "int (length (sub_windows 17000000 17000100 500)) \<le> 20000"
    by (simp add: one_window)
  have ev0: "\<forall>n a b. events_TokenExchange_get_logs node0 ''0xpool'' n a b = Logs []"
    by (simp add: node0_def)
  have add0: "adds_up (\<lambda>a b. ([]::event_log list))" by (simp add: adds_up_def)
  have raw0: "\<forall>n a b. eth_get_logs node0 n
                \<lparr>fromBlock = a, toBlock = b, address = ''0xpool'', topics = [''0xd013ca23'']\<rparr> =
                Logs (?g a b)"
    by (simp add: node0_def)
  have lg: "lg_blockNumber lg_two_topics = 17000050" "lg_transactionHash lg_two_topics = ''0xtx''"
    by (simp_all add: lg_two_topics_def)
  have dec: "\<exists>data. data_bytes lib0 (lg_data lg_two_topics) = Inr data \<and>
                    decoded_as lib0 (lg_topics lg_two_topics) data (0, 5, 1, 7) \<and>
                    is_exchange 0 1"
  proof (intro exI conjI)
    show "data_bytes lib0 (lg_data lg_two_topics) =
            Inr [char_of (0::nat), char_of (5::nat), char_of (1::nat), char_of (7::nat)]"
      by (simp add: data_bytes_def lg_two_topics_def)
    show "decoded_as lib0 (lg_topics lg_two_topics)
            [char_of (0::nat), char_of (5::nat), char_of (1::nat), char_of (7::nat)] (0, 5, 1, 7)"
      unfolding decoded_as_def lg_two_topics_def lib0_def toy_abi_decode_def by simp code_simp
    show "is_exchange 0 1" by (simp add: is_exchange_def)
  qed
  have agree: "\<forall>n a b. 17000000 \<le> a \<and> a \<le> b \<and> b \<le> 17000100 \<longrightarrow>
      ?gl n \<lparr>fromBlock = a, toBlock = b, address = ''0xpool'', topics = [''0xd013ca23'']\<rparr> =
      eth_get_logs node0 n
        \<lparr>fromBlock = a, toBlock = b, address = ''0xpool'', topics = [''0xd013ca23'']\<rparr>"
    by simp
  have ev2: "\<forall>n a b. events_TokenExchange_get_logs node2 ''0xpool'' n a b = Logs (?h a b)"
    by (simp add: node2_def)
  have ev: "ev_blockNumber ev_swap = 17000050" "ev_transactionHash ev_swap = ''0xtx2''"
    "a_sold_id (ev_args ev_swap) = 1" "a_tokens_sold (ev_args ev_swap) = 3"
    "a_bought_id (ev_args ev_swap) = 0" "a_tokens_bought (ev_args ev_swap) = 6"
    by (simp_all add: ev_swap_def)
  have fallback: "(\<exists>rr. analyze_swaps_last_days lib0 node0 ''0xpool'' meta0 7 204001200 (\<lambda>n. False) =
           Some \<lparr>raw_run = Some rr,
                 swaps_out = Inr [exchange_record meta0 204000600 17000050 ''0xtx'' 0 5 7]\<rparr> \<and>
         yielded rr = [lg_two_topics]) \<and>
      analyze_swaps_last_days lib0 (node0\<lparr>eth_get_logs := ?gl\<rparr>)
         ''0xpool'' meta0 7 204001200 (\<lambda>n. False) =
      analyze_swaps_last_days lib0 node0 ''0xpool'' meta0 7 204001200 (\<lambda>n. False)"
    using structured_first_raw_fallback[where node = node0 and l = lib0
      and pool_addr = "''0xpool''" and meta = meta0 and days = 7 and now = 204001200
      and timed_out = "\<lambda>n. False" and h = "\<lambda>a b. []" and g = ?g and dec = "\<lambda>lg. (0, 5, 1, 7)",
      OF node0_blocks(1)[symmetric] node0_blocks(2)[symmetric] topic ts0,
      simplified fst_conv snd_conv]
  proof (elim exE conjE)
    fix ra :: "event_log run"
    assume s1: "(\<forall>n a b. events_TokenExchange_get_logs node0 ''0xpool'' n a b = Logs []) \<and>
        adds_up (\<lambda>a b. ([]::event_log list)) \<and> (17000000::int) \<le> 17000100 \<and>
        int (length (sub_windows 17000000 17000100 500)) \<le> 20000 \<longrightarrow> yielded ra = []"
    assume fl: "\<forall>gl. (\<forall>n a b. 17000000 \<le> a \<and> a \<le> b \<and> b \<le> 17000100 \<longrightarrow>
               gl n \<lparr>fromBlock = a, toBlock = b, address = ''0xpool'', topics = [''0xd013ca23'']\<rparr> =
               eth_get_logs node0 n
                 \<lparr>fromBlock = a, toBlock = b, address = ''0xpool'', topics = [''0xd013ca23'']\<rparr>) \<longrightarrow>
             analyze_swaps_last_days lib0 (node0\<lparr>eth_get_logs := gl\<rparr>) ''0xpool'' meta0 7 204001200
               (\<lambda>n. False) =
             analyze_swaps_last_days lib0 node0 ''0xpool'' meta0 7 204001200 (\<lambda>n. False)"
    assume fb: "abi_pass meta0 (\<lambda>b. 12 * b) (\<lambda>n. False) (yielded ra) [] = [] \<longrightarrow>
       (\<exists>rr. fetch_token_exchange_raw (keccak_text_hex lib0) (eth_get_logs node0) ''0xpool''
                17000000 17000100 500 20000 = Some rr \<and>
              analyze_swaps_last_days lib0 node0 ''0xpool'' meta0 7 204001200 (\<lambda>n. False) =
                Some \<lparr>raw_run = Some rr,
                      swaps_out = raw_pass lib0 meta0 (\<lambda>b. 12 * b) (yielded rr) []\<rparr> \<and>
              (\<forall>w\<in>set (queried rr).
                  17000000 \<le> fst w \<and> fst w \<le> snd w \<and> snd w \<le> 17000100) \<and>
              ((\<forall>n a b. eth_get_logs node0 n
                   \<lparr>fromBlock = a, toBlock = b, address = ''0xpool'', topics = [''0xd013ca23'']\<rparr> =
                   Logs (if a \<le> 17000050 \<and> 17000050 \<le> b then [lg_two_topics] else [])) \<and>
               adds_up (\<lambda>a b. if a \<le> (17000050::int) \<and> 17000050 \<le> b then [lg_two_topics] else []) \<and>
               (17000000::int) \<le> 17000100 \<and>
               int (length (sub_windows 17000000 17000100 500)) \<le> 20000 \<longrightarrow>
                 yielded rr = (if (17000000::int) \<le> 17000050 \<and> (17000050::int) \<le> 17000100
                               then [lg_two_topics] else [])) \<and>
              ((\<forall>lg\<in>set (yielded rr).
                   \<exists>data. data_bytes lib0 (lg_data lg) = Inr data \<and>
                          decoded_as lib0 (lg_topics lg) data (0, 5, 1, 7) \<and>
                          is_exchange 0 1) \<longrightarrow>
                 raw_pass lib0 meta0 (\<lambda>b. 12 * b) (yielded rr) [] =
                   Inr (map (\<lambda>lg. exchange_record meta0 (12 * lg_blockNumber lg)
                                    (lg_blockNumber lg) (lg_transactionHash lg) 0 5 7)
                            (yielded rr))))"
    from ev0 add0 len have "yielded ra = []" by (intro s1[rule_format] conjI) simp_all
    then have "abi_pass meta0 (\<lambda>b. 12 * b) (\<lambda>n. False) (yielded ra) [] = []" by simp
    from fb[rule_format, OF this] obtain rr :: "raw_log run" where
      an: "analyze_swaps_last_days lib0 node0 ''0xpool'' meta0 7 204001200 (\<lambda>n. False) =
                Some \<lparr>raw_run = Some rr,
                      swaps_out = raw_pass lib0 meta0 (\<lambda>b. 12 * b) (yielded rr) []\<rparr>"
      and r1: "(\<forall>n a b. eth_get_logs node0 n
                   \<lparr>fromBlock = a, toBlock = b, address = ''0xpool'', topics = [''0xd013ca23'']\<rparr> =
                   Logs (if a \<le> 17000050 \<and> 17000050 \<le> b then [lg_two_topics] else [])) \<and>
               adds_up (\<lambda>a b. if a \<le> (17000050::int) \<and> 17000050 \<le> b then [lg_two_topics] else []) \<and>
               (17000000::int) \<le> 17000100 \<and>
               int (length (sub_windows 17000000 17000100 500)) \<le> 20000 \<longrightarrow>
                 yielded rr = (if (17000000::int) \<le> 17000050 \<and> (17000050::int) \<le> 17000100
                               then [lg_two_topics] else [])"
      and r2: "(\<forall>lg\<in>set (yielded rr).
                   \<exists>data. data_bytes lib0 (lg_data lg) = Inr data \<and>
                          decoded_as lib0 (lg_topics lg) data (0, 5, 1, 7) \<and>
                          is_exchange 0 1) \<longrightarrow>
                 raw_pass lib0 meta0 (\<lambda>b. 12 * b) (yielded rr) [] =
                   Inr (map (\<lambda>lg. exchange_record meta0 (12 * lg_blockNumber lg)
                                    (lg_blockNumber lg) (lg_transactionHash lg) 0 5 7)
                            (yielded rr))"
      by blast
    from raw0 one_block_additive[of 17000050 lg_two_topics] len
    have "yielded rr = (if (17000000::int) \<le> 17000050 \<and> (17000050::int) \<le> 17000100
                               then [lg_two_topics] else [])"
      by (intro r1[rule_format] conjI) simp_all
    then have y: "yielded rr = [lg_two_topics]" by simp
    from dec y have "\<forall>lg\<in>set (yielded rr).
                   \<exists>data. data_bytes lib0 (lg_data lg) = Inr data \<and>
                          decoded_as lib0 (lg_topics lg) data (0, 5, 1, 7) \<and>
                          is_exchange 0 1"
      by simp
    from r2[THEN mp, OF this] y lg
    have "raw_pass lib0 meta0 (\<lambda>b. 12 * b) (yielded rr) [] =
            Inr [exchange_record meta0 204000600 17000050 ''0xtx'' 0 5 7]"
      by simp
    with an y have "\<exists>rr. analyze_swaps_last_days lib0 node0 ''0xpool'' meta0 7 204001200
          (\<lambda>n. False) =
           Some \<lparr>raw_run = Some rr,
                 swaps_out = Inr [exchange_record meta0 204000600 17000050 ''0xtx'' 0 5 7]\<rparr> \<and>
         yielded rr = [lg_two_topics]"
      by simp
    moreover from fl[rule_format, of ?gl, OF agree[rule_format]]
    have "analyze_swaps_last_days lib0 (node0\<lparr>eth_get_logs := ?gl\<rparr>)
         ''0xpool'' meta0 7 204001200 (\<lambda>n. False) =
      analyze_swaps_last_days lib0 node0 ''0xpool'' meta0 7 204001200 (\<lambda>n. False)" .
    ultimately show ?thesis by (rule conjI)
  qed
  have structured: "analyze_swaps_last_days lib0 node2 ''0xpool'' meta0 7 204001200 (\<lambda>n. False) =
     Some \<lparr>raw_run = None,
           swaps_out = Inr [exchange_record meta0 204000600 17000050 ''0xtx2'' 1 3 6]\<rparr>"
    using structured_first_raw_fallback[where node = node2 and l = lib0
      and pool_addr = "''0xpool''" and meta = meta0 and days = 7 and now = 204001200
      and timed_out = "\<lambda>n. False" and h = ?h and g = ?g and dec = "\<lambda>lg. (0, 5, 1, 7)",
      OF node2_blocks(1)[symmetric] node2_blocks(2)[symmetric] topic ts2,
      simplified fst_conv snd_conv]
  proof (elim exE conjE)
    fix rb :: "event_log run"
    assume s1: "(\<forall>n a b. events_TokenExchange_get_logs node2 ''0xpool'' n a b =
                  Logs (if a \<le> 17000050 \<and> 17000050 \<le> b then [ev_swap] else [])) \<and>
          adds_up (\<lambda>a b. if a \<le> (17000050::int) \<and> 17000050 \<le> b then [ev_swap] else []) \<and>
          (17000000::int) \<le> 17000100 \<and>
          int (length (sub_windows 17000000 17000100 500)) \<le> 20000 \<longrightarrow>
            yielded rb = (if (17000000::int) \<le> 17000050 \<and> (17000050::int) \<le> 17000100
                          then [ev_swap] else [])"
    assume s2: "(\<forall>ev\<in>set (yielded rb). is_exchange (a_sold_id (ev_args ev)) (a_bought_id (ev_args ev))) \<and>
          (\<forall>n::nat. \<not> False) \<longrightarrow>
            abi_pass meta0 (\<lambda>b. 12 * b) (\<lambda>n. False) (yielded rb) [] =
              map (\<lambda>ev. exchange_record meta0 (12 * ev_blockNumber ev) (ev_blockNumber ev)
                           (ev_transactionHash ev) (a_sold_id (ev_args ev))
                           (a_tokens_sold (ev_args ev)) (a_tokens_bought (ev_args ev)))
                  (yielded rb)"
    assume a: "abi_pass meta0 (\<lambda>b. 12 * b) (\<lambda>n. False) (yielded rb) [] \<noteq> [] \<longrightarrow>
          analyze_swaps_last_days lib0 node2 ''0xpool'' meta0 7 204001200 (\<lambda>n. False) =
            Some \<lparr>raw_run = None,
                  swaps_out = Inr (abi_pass meta0 (\<lambda>b. 12 * b) (\<lambda>n. False) (yielded rb) [])\<rparr>"
    from ev2 one_block_additive[of 17000050 ev_swap] len
    have "yielded rb = (if (17000000::int) \<le> 17000050 \<and> (17000050::int) \<le> 17000100
                          then [ev_swap] else [])"
      by (intro s1[rule_format] conjI) simp_all
    then have yb: "yielded rb = [ev_swap]" by simp
    have "abi_pass meta0 (\<lambda>b. 12 * b) (\<lambda>n. False) (yielded rb) [] =
              map (\<lambda>ev. exchange_record meta0 (12 * ev_blockNumber ev) (ev_blockNumber ev)
                           (ev_transactionHash ev) (a_sold_id (ev_args ev))
                           (a_tokens_sold (ev_args ev)) (a_tokens_bought (ev_args ev)))
                  (yielded rb)"
      by (intro s2[rule_format] conjI) (simp_all add: yb ev is_exchange_def)
    with yb ev have p: "abi_pass meta0 (\<lambda>b. 12 * b) (\<lambda>n. False) (yielded rb) [] =
          [exchange_record meta0 204000600 17000050 ''0xtx2'' 1 3 6]"
      by simp
    then have "abi_pass meta0 (\<lambda>b. 12 * b) (\<lambda>n. False) (yielded rb) [] \<noteq> []" by simp
    from a[rule_format, OF this] p show ?thesis by simp
  qed
  from fallback structured show ?thesis by (simp only: conj_assoc)
qed

section \<open>Defaults of the metadata\<close>

text \<open>
  C7, as the code has it. For a pool whose two \<open>coins\<close> calls answer, \<open>get_pool_meta\<close>
  reads the two token addresses, then asks each token for its symbol and for its decimals,
  in this order. A symbol that cannot be read defaults to \<open>T0\<close> for index 0 and to \<open>T1\<close>
  for index 1; decimals that cannot be read default to 18. The module
  analysis\_curve\_pool.py reads the same values through \<open>safe\<close>.
\<close>

theorem metadata_defaults:
  assumes "call_coins node pool_addr 0 = Some c0" and "call_coins node pool_addr 1 = Some c1"
  shows "\<exists>m. get_pool_meta node pool_addr =
               (Inr m, [Coins pool_addr 0, Coins pool_addr 1, Symbol c0, Symbol c1,
                        Decimals c0, Decimals c1]) \<and>
             acp_pool_meta node pool_addr = Inr m \<and>
             pm_address m = pool_addr \<and> coin0 m = c0 \<and> coin1 m = c1 \<and>
             sym0 m = (case call_symbol node c0 of Some s \<Rightarrow> s | None \<Rightarrow> ''T0'') \<and>
             sym1 m = (case call_symbol node c1 of Some s \<Rightarrow> s | None \<Rightarrow> ''T1'') \<and>
             dec0 m = (case call_decimals node c0 of Some d \<Rightarrow> d | None \<Rightarrow> 18) \<and>
             dec1 m = (case call_decimals node c1 of Some d \<Rightarrow> d | None \<Rightarrow> 18)"
  using assms
  by (simp add: get_pool_meta_def acp_pool_meta_def safe_def Let_def split: prod.splits)

theorem metadata_defaults_witness:
  "\<exists>m. get_pool_meta node0 ''0xpool'' =
          (Inr m, [Coins ''0xpool'' 0, Coins ''0xpool'' 1, Symbol ''0xc0'', Symbol ''0xc1'',
                   Decimals ''0xc0'', Decimals ''0xc1'']) \<and>
        acp_pool_meta node0 ''0xpool'' = Inr m \<and>
        sym0 m = ''T0'' \<and> sym1 m = ''T1'' \<and> dec0 m = 6 \<and> dec1 m = 18"
proof -
  have h0: "call_coins node0 ''0xpool'' 0 = Some ''0xc0''" by (simp add: node0_def)
  have h1: "call_coins node0 ''0xpool'' 1 = Some ''0xc1''" by (simp add: node0_def)
  have s: "call_symbol node0 ''0xc0'' = None" "call_symbol node0 ''0xc1'' = None"
    "call_decimals node0 ''0xc0'' = Some 6" "call_decimals node0 ''0xc1'' = None"
    by (simp_all add: node0_def)
  from metadata_defaults[OF h0 h1] show ?thesis unfolding s by auto
qed

text \<open>
  The claim as it stands fails on a pool whose tokens have no readable symbol: the symbols
  are \<open>T0\<close> and \<open>T1\<close>, not \<open>Token0\<close> and \<open>Token1\<close>.
\<close>

theorem metadata_defaults_counterexample:
  "call_symbol node0 ''0xc0'' = None \<and> call_symbol node0 ''0xc1'' = None \<and>
   fst (get_pool_meta node0 ''0xpool'') =
     Inr \<lparr>pm_address = ''0xpool'', coin0 = ''0xc0'', coin1 = ''0xc1'', sym0 = ''T0'', sym1 = ''T1'',
           dec0 = 6, dec1 = 18, deusd_index = 0, frx_index = 1\<rparr> \<and>
   ''T0'' \<noteq> ''Token0'' \<and> ''T1'' \<noteq> ''Token1''"
  by code_simp

section \<open>The order of the resolver\<close>

lemma strip_no_space:
  assumes "\<forall>c\<in>set s. \<not> is_space c"
  shows "strip s = s"
proof -
  have a: "dropWhile is_space s = s" using assms by (cases s) auto
  have "dropWhile is_space (rev s) = rev s" using assms by (cases "rev s") (auto simp: rev_eq_Cons_iff)
  with a show ?thesis by (simp add: strip_def)
qed

lemma hex_no_space:
  assumes "c \<in> set ''0123456789abcdefABCDEFx''"
  shows "\<not> is_space c"
proof -
  have "\<forall>d\<in>set ''0123456789abcdefABCDEFx''. \<not> is_space d" by code_simp
  with assms show ?thesis by blast
qed

text \<open>
  C8. For an input \<open>0x\<close> followed by 40 hex digits, which the library turns into the address
  \<open>addr\<close> and on which \<open>coins(0)\<close> answers, \<open>resolve_pool_from_input\<close> returns \<open>addr\<close> and
  has made one call, the probe: \<open>minter\<close>, \<open>get_registry\<close> and \<open>get_pool_from_lp_token\<close>
  are not called.
\<close>

theorem resolver_short_circuit:
  assumes "prefix ''0x'' ui" and "length ui = 42"
    and "\<forall>c\<in>set ui. c \<in> set ''0123456789abcdefABCDEFx''"
    and "to_checksum_address l ui = Some addr"
    and "call_coins node addr 0 = Some c"
  shows "resolve_pool_from_input l node ui = (Inr addr, [Coins addr 0])"
proof -
  have sp: "strip ui = ui" using assms(3) hex_no_space by (intro strip_no_space) blast
  have nh: "\<not> prefix ''http'' ui" using assms(1) by (auto simp: prefix_def)
  have "resolve_pool_from_input l node ui = resolve_address l node ui"
    unfolding resolve_pool_from_input_def Let_def using nh assms(1,2) by (simp add: sp)
  also have "\<dots> = (Inr addr, [Coins addr 0])"
    using assms(4,5) by (simp add: resolve_address_def)
  finally show ?thesis .
qed

theorem resolver_short_circuit_witness:
  "resolve_pool_from_input lib0 node1 ''0x4eeb03b2b8f55159f47b3548faafe3efaff43eb9'' =
     (Inr ''0x4eeb03b2b8f55159f47b3548faafe3efaff43eb9'',
      [Coins ''0x4eeb03b2b8f55159f47b3548faafe3efaff43eb9'' 0])"
proof -
  have h1: "prefix ''0x'' ''0x4eeb03b2b8f55159f47b3548faafe3efaff43eb9''" by simp
  have h2: "length ''0x4eeb03b2b8f55159f47b3548faafe3efaff43eb9'' = 42" by simp
  have h3: "\<forall>c\<in>set ''0x4eeb03b2b8f55159f47b3548faafe3efaff43eb9''.
              c \<in> set ''0123456789abcdefABCDEFx''" by code_simp
  have h4: "to_checksum_address lib0 ''0x4eeb03b2b8f55159f47b3548faafe3efaff43eb9'' =
              Some ''0x4eeb03b2b8f55159f47b3548faafe3efaff43eb9''" by (simp add: lib0_def)
  have h5: "call_coins node1 ''0x4eeb03b2b8f55159f47b3548faafe3efaff43eb9'' 0 = Some ''0xc0''"
    by (simp add: node1_def)
  from resolver_short_circuit[OF h1 h2 h3 h4 h5] show ?thesis .
qed

lemma resolver_runs:
  "resolve_pool_from_input lib1 node1
      ''  https://etherscan.io/address/0x4eeb03b2b8f55159f47b3548faafe3efaff43eb9 '' =
     (Inr ''0x4eeb03b2b8f55159f47b3548faafe3efaff43eb9'',
      [Coins ''0x4eeb03b2b8f55159f47b3548faafe3efaff43eb9'' 0])"
  "resolve_pool_from_input lib0 node0 ''0x4eeb03b2b8f55159f47b3548faafe3efaff43eb9'' =
     (Inl (ValueError ''Provided address does not appear to be a Curve pool or LP token resolvable via minter/registry''),
      [Coins ''0x4eeb03b2b8f55159f47b3548faafe3efaff43eb9'' 0,
       Minter ''0x4eeb03b2b8f55159f47b3548faafe3efaff43eb9'',
       GetRegistry CURVE_ADDRESS_PROVIDER])"
  by code_simp+

end
